theory Spec2Isabelle
  imports Main "HOL-Library.AList"
begin

section \<open>Text helpers\<close>

text \<open>
  Strings are Python \<open>str\<close> values restricted to the ASCII range, one \<open>char\<close> per
  code point. \<open>is_space\<close> is the set of ASCII characters for which \<open>str.isspace\<close>
  holds and which the pattern \<open>\s\<close> matches: tab, line feed, vertical tab, form
  feed, carriage return, the four separators 28..31 and the blank.
\<close>

definition is_space :: "char \<Rightarrow> bool" where
  "is_space c = (of_char c \<in> {9::nat, 10, 11, 12, 13, 28, 29, 30, 31, 32})"

text \<open>\<open>str.strip()\<close>: drop the leading and the trailing whitespace.\<close>

definition lstrip :: "string \<Rightarrow> string" where
  "lstrip s = dropWhile is_space s"

definition strip :: "string \<Rightarrow> string" where
  "strip s = rev (dropWhile is_space (rev (dropWhile is_space s)))"

text \<open>\<open>re.sub(r'\s+', ' ', s)\<close>: every maximal run of whitespace becomes one blank.\<close>

function collapse_ws :: "string \<Rightarrow> string" where
  "collapse_ws [] = []"
| "collapse_ws (c # cs) =
     (if is_space c then CHR '' '' # collapse_ws (dropWhile is_space cs)
      else c # collapse_ws cs)"
  by pat_completeness auto
termination
  by (relation "measure length") (auto simp: less_Suc_eq_le length_dropWhile_le)

definition normalize_ws :: "string \<Rightarrow> string" where
  "normalize_ws s = strip (collapse_ws s)"

text \<open>\<open>sep.join(parts)\<close>.\<close>

fun join :: "string \<Rightarrow> string list \<Rightarrow> string" where
  "join sep [] = []"
| "join sep [p] = p"
| "join sep (p # q # ps) = p @ sep @ join sep (q # ps)"

text \<open>
  A text file opened for reading without \<open>newline=''\<close> is read with universal
  newlines: each \<open>\r\n\<close> and each remaining \<open>\r\<close> arrives as \<open>\n\<close>.
\<close>

definition cr :: char where
  "cr = CHR 0x0D"

definition lf :: char where
  "lf = CHR 0x0A"

fun universal_newlines :: "string \<Rightarrow> string" where
  "universal_newlines [] = []"
| "universal_newlines [c] = (if c = cr then [lf] else [c])"
| "universal_newlines (c # d # ds) =
     (if c = cr \<and> d = lf then lf # universal_newlines ds
      else if c = cr then lf # universal_newlines (d # ds)
      else c # universal_newlines (d # ds))"

section \<open>The Extractor: \<open>IDExtractor\<close>\<close>

text \<open>
  The exceptions the scripts can raise. \<open>BackslashInTemplate\<close> is not one of
  Python's: it marks a Store text with a backslash reaching a replacement
  template of \<open>re.sub\<close>, whose escape rules the model leaves out.
\<close>

datatype py_error =
    AttributeError
  | KeyError string
  | FileNotFoundError string
  | ReError
  | BackslashInTemplate

text \<open>
  \<open>IDExtractor\<close> subclasses the standard library's \<open>HTMLParser\<close>, which cuts the
  document into events and calls one handler per event. The tokenizer is library
  code; the model takes its output, the sequence of events, as the document. Tag
  and attribute names arrive in lower case; attribute values are strings.
\<close>

datatype event =
    StartTag string "(string \<times> string) list"
  | EndTag string
  | Data string
  | StartEndTag string "(string \<times> string) list"

text \<open>
  A value of \<open>self.elements\<close> is the list of captured pieces while the capture is
  open and the cleaned string once \<open>handle_endtag\<close> has closed it.
\<close>

datatype content = Parts "string list" | Text string

text \<open>
  A Python dict keeps its keys in insertion order and an assignment to a present
  key keeps the key's place: \<open>AList.update\<close>. Lookup is \<open>map_of\<close>.
\<close>

record extractor =
  elements :: "(string \<times> content) list"
  tags :: "(string \<times> string) list"
  current_id :: "string option"
  current_tag :: "string option"
  capture_content :: bool

definition new_extractor :: extractor where
  "new_extractor =
     \<lparr>elements = [], tags = [], current_id = None, current_tag = None,
      capture_content = False\<rparr>"

text \<open>\<open>dict(attrs)\<close>: of two attributes with one name the later one stays.\<close>

definition attrs_dict :: "(string \<times> string) list \<Rightarrow> string \<rightharpoonup> string" where
  "attrs_dict attrs = map_of (rev attrs)"

definition handle_starttag :: "extractor \<Rightarrow> string \<Rightarrow> (string \<times> string) list \<Rightarrow> extractor" where
  "handle_starttag ex tg attrs =
     (case attrs_dict attrs ''id'' of
        None \<Rightarrow> ex
      | Some element_id \<Rightarrow>
          ex\<lparr>current_id := Some element_id,
             current_tag := Some tg,
             capture_content := True,
             elements := AList.update element_id (Parts []) (elements ex),
             tags := AList.update element_id tg (tags ex)\<rparr>)"

text \<open>\<open>''.join(v)\<close> on a list of pieces and on a string (the string itself).\<close>

fun joined :: "content \<Rightarrow> string" where
  "joined (Parts ps) = concat ps"
| "joined (Text s) = s"

definition handle_endtag :: "extractor \<Rightarrow> string \<Rightarrow> py_error + extractor" where
  "handle_endtag ex tg =
     (if capture_content ex \<and> Some tg = current_tag ex then
        (case current_id ex of
           None \<Rightarrow> Inl (KeyError ''None'')
         | Some cid \<Rightarrow>
             (case map_of (elements ex) cid of
                None \<Rightarrow> Inl (KeyError cid)
              | Some c \<Rightarrow>
                  Inr (ex\<lparr>elements := AList.update cid (Text (normalize_ws (joined c))) (elements ex),
                          capture_content := False,
                          current_id := None,
                          current_tag := None\<rparr>)))
      else Inr ex)"

text \<open>
  \<open>handle_data\<close> appends to the open capture. \<open>self.current_id\<close> is tested for
  truth, so the empty identifier captures nothing. A value that
  \<open>handle_startendtag\<close> has meanwhile set to a string has no \<open>append\<close>.
\<close>

definition handle_data :: "extractor \<Rightarrow> string \<Rightarrow> py_error + extractor" where
  "handle_data ex dat =
     (case current_id ex of
        None \<Rightarrow> Inr ex
      | Some cid \<Rightarrow>
          (if capture_content ex \<and> cid \<noteq> [] then
             (case map_of (elements ex) cid of
                None \<Rightarrow> Inl (KeyError cid)
              | Some (Parts ps) \<Rightarrow>
                  Inr (ex\<lparr>elements := AList.update cid (Parts (ps @ [dat])) (elements ex)\<rparr>)
              | Some (Text s) \<Rightarrow> Inl AttributeError)
           else Inr ex))"

definition handle_startendtag :: "extractor \<Rightarrow> string \<Rightarrow> (string \<times> string) list \<Rightarrow> extractor" where
  "handle_startendtag ex tg attrs =
     (case attrs_dict attrs ''id'' of
        None \<Rightarrow> ex
      | Some element_id \<Rightarrow>
          ex\<lparr>elements := AList.update element_id (Text []) (elements ex),
             tags := AList.update element_id tg (tags ex)\<rparr>)"

fun handle_event :: "extractor \<Rightarrow> event \<Rightarrow> py_error + extractor" where
  "handle_event ex (StartTag tg attrs) = Inr (handle_starttag ex tg attrs)"
| "handle_event ex (EndTag tg) = handle_endtag ex tg"
| "handle_event ex (Data dat) = handle_data ex dat"
| "handle_event ex (StartEndTag tg attrs) = Inr (handle_startendtag ex tg attrs)"

text \<open>\<open>parser.feed\<close>: the handlers in document order; an exception ends the run.\<close>

fun feed :: "extractor \<Rightarrow> event list \<Rightarrow> py_error + extractor" where
  "feed ex [] = Inr ex"
| "feed ex (e # es) =
     (case handle_event ex e of Inl err \<Rightarrow> Inl err | Inr ex' \<Rightarrow> feed ex' es)"

definition extract_ids_from_html :: "event list \<Rightarrow> py_error + (string \<times> content) list" where
  "extract_ids_from_html html_content =
     (case feed new_extractor html_content of
        Inl err \<Rightarrow> Inl err
      | Inr parser \<Rightarrow> Inr (elements parser))"

section \<open>The translation Store\<close>

text \<open>
  One row of \<open>i18n/translations.csv\<close>, as \<open>create_updated_csv\<close> builds it: a dict
  with the seven keys of \<open>fieldnames\<close>. The fields carry the prefix \<open>r_\<close> because
  \<open>id\<close> is taken in HOL.
\<close>

record row =
  r_page :: string
  r_address :: string
  r_status :: string
  r_tag :: string
  r_id :: string
  r_en :: string
  r_es :: string

subsection \<open>\<open>scan_html_files\<close>\<close>

text \<open>
  The value \<open>page_ids[page][id]\<close> is a dict with the optional keys \<open>en\<close> and \<open>es\<close>.
\<close>

record content_data =
  d_en :: "content option"
  d_es :: "content option"

type_synonym ids_data = "(string \<times> content_data) list"
type_synonym page_ids = "(string \<times> ids_data) list"
type_synonym tag_info = "(string \<times> (string \<times> string) list) list"

text \<open>
  The files the scan reads: a path is absent (\<open>exists()\<close> is false) or holds a
  document, given as the parser's events.
\<close>

type_synonym html_files = "string \<rightharpoonup> event list"

definition pages :: "string list" where
  "pages = [''index'', ''about'', ''contact'', ''portfolio'', ''project'']"

definition get_or :: "'v \<Rightarrow> 'v option \<Rightarrow> 'v" where
  "get_or dflt v = (case v of None \<Rightarrow> dflt | Some x \<Rightarrow> x)"

text \<open>
  The body of the loop over the English extraction: create the entry if the
  identifier is new on this page, set its \<open>en\<close>, record the tag.
\<close>

fun scan_en_step ::
  "(string \<times> string) list \<Rightarrow> ids_data \<times> (string \<times> string) list \<Rightarrow> string \<times> content
     \<Rightarrow> ids_data \<times> (string \<times> string) list" where
  "scan_en_step ex_tags (ids, tinfo) (element_id, c) =
     (AList.update element_id
        ((get_or \<lparr>d_en = None, d_es = None\<rparr> (map_of ids element_id))\<lparr>d_en := Some c\<rparr>) ids,
      AList.update element_id (get_or ''unknown'' (map_of ex_tags element_id)) tinfo)"

text \<open>The Spanish loop sets \<open>es\<close> and records the tag only where none is recorded.\<close>

fun scan_es_step ::
  "(string \<times> string) list \<Rightarrow> ids_data \<times> (string \<times> string) list \<Rightarrow> string \<times> content
     \<Rightarrow> ids_data \<times> (string \<times> string) list" where
  "scan_es_step ex_tags (ids, tinfo) (element_id, c) =
     (AList.update element_id
        ((get_or \<lparr>d_en = None, d_es = None\<rparr> (map_of ids element_id))\<lparr>d_es := Some c\<rparr>) ids,
      (if map_of tinfo element_id = None
       then AList.update element_id (get_or ''unknown'' (map_of ex_tags element_id)) tinfo
       else tinfo))"

definition scan_file ::
  "((string \<times> string) list \<Rightarrow> ids_data \<times> (string \<times> string) list \<Rightarrow> string \<times> content
      \<Rightarrow> ids_data \<times> (string \<times> string) list)
   \<Rightarrow> html_files \<Rightarrow> string \<Rightarrow> ids_data \<times> (string \<times> string) list
   \<Rightarrow> py_error + ids_data \<times> (string \<times> string) list" where
  "scan_file step fs path acc =
     (case fs path of
        None \<Rightarrow> Inr acc
      | Some doc \<Rightarrow>
          (case feed new_extractor doc of
             Inl err \<Rightarrow> Inl err
           | Inr ex \<Rightarrow> Inr (foldl (step (tags ex)) acc (elements ex))))"

definition scan_page :: "html_files \<Rightarrow> string \<Rightarrow> py_error + ids_data \<times> (string \<times> string) list" where
  "scan_page fs page =
     (case scan_file scan_en_step fs (page @ ''.html'') ([], []) of
        Inl err \<Rightarrow> Inl err
      | Inr acc \<Rightarrow> scan_file scan_es_step fs (''es/'' @ page @ ''.html'') acc)"

fun scan_pages :: "html_files \<Rightarrow> string list \<Rightarrow> page_ids \<times> tag_info \<Rightarrow> py_error + page_ids \<times> tag_info" where
  "scan_pages fs [] acc = Inr acc"
| "scan_pages fs (page # rest) (pids, tinfo) =
     (case scan_page fs page of
        Inl err \<Rightarrow> Inl err
      | Inr (ids, ti) \<Rightarrow>
          scan_pages fs rest (AList.update page ids pids, AList.update page ti tinfo))"

definition scan_html_files :: "html_files \<Rightarrow> py_error + page_ids \<times> tag_info" where
  "scan_html_files fs = scan_pages fs pages ([], [])"

subsection \<open>\<open>load_existing_csv\<close>\<close>

text \<open>
  What \<open>csv.DictReader\<close> yields for the Store file: one dict per data line, from
  column name to field. The file may be absent. A column the header lacks is a
  key the dict lacks; a line shorter than the header, whose missing fields the
  reader sets to \<open>None\<close>, is left out of the model. \<open>row_dict\<close> is the dict
  \<open>create_updated_csv\<close> builds for a row and \<open>csv.DictWriter\<close> writes.
\<close>

type_synonym csv_row = "string \<rightharpoonup> string"
type_synonym store_file = "csv_row list option"

definition row_dict :: "row \<Rightarrow> csv_row" where
  "row_dict r =
     [''page'' \<mapsto> r_page r, ''address'' \<mapsto> r_address r, ''status'' \<mapsto> r_status r,
      ''tag'' \<mapsto> r_tag r, ''id'' \<mapsto> r_id r, ''en'' \<mapsto> r_en r, ''es'' \<mapsto> r_es r]"

definition load_step :: "(string \<rightharpoonup> csv_row) \<Rightarrow> csv_row \<Rightarrow> (string \<rightharpoonup> csv_row)" where
  "load_step existing rw =
     (let element_id = get_or [] (rw ''id'')
      in if element_id \<noteq> [] then existing(element_id \<mapsto> rw) else existing)"

definition load_existing_csv :: "store_file \<Rightarrow> (string \<rightharpoonup> csv_row)" where
  "load_existing_csv csv_file =
     (case csv_file of
        None \<Rightarrow> Map.empty
      | Some reader \<Rightarrow> foldl load_step Map.empty reader)"

subsection \<open>\<open>create_updated_csv\<close>\<close>

definition get_page_address :: "string \<Rightarrow> string \<Rightarrow> string" where
  "get_page_address page_name lang =
     (if lang = ''en'' then ''/'' @ page_name @ ''.html''
      else ''/'' @ lang @ ''/'' @ page_name @ ''.html'')"

text \<open>
  \<open>' '.join(str(item) for item in v if item)\<close> when the scanned value is still a
  list; a string is taken as it is.
\<close>

fun to_str :: "content \<Rightarrow> string" where
  "to_str (Text s) = s"
| "to_str (Parts ps) = join '' '' (filter (\<lambda>item. item \<noteq> []) ps)"

text \<open>
  The body of the inner loop. The state is \<open>rows\<close> and \<open>processed_ids\<close>.
\<close>

fun create_step ::
  "tag_info \<Rightarrow> (string \<rightharpoonup> csv_row) \<Rightarrow> string \<Rightarrow> row list \<times> string set
     \<Rightarrow> string \<times> content_data \<Rightarrow> row list \<times> string set" where
  "create_step tinfo existing_data page (rows, processed_ids) (element_id, cd) =
     (if element_id \<in> processed_ids then (rows, processed_ids)
      else
        let processed_ids = insert element_id processed_ids;
            en_content = (case d_en cd of None \<Rightarrow> [] | Some c \<Rightarrow> to_str c);
            es_content_from_html = (case d_es cd of None \<Rightarrow> [] | Some c \<Rightarrow> to_str c)
        in if en_content = [] \<or> strip en_content = [] then (rows, processed_ids)
           else
             let es_content =
                   (case existing_data element_id of
                      None \<Rightarrow> es_content_from_html
                    | Some ex \<Rightarrow>
                        (if get_or [] (ex ''es'') \<noteq> [] then get_or [] (ex ''es'')
                         else es_content_from_html));
                 tag_type =
                   get_or ''unknown'' (map_of (get_or [] (map_of tinfo page)) element_id);
                 best_page =
                   (case existing_data element_id of
                      None \<Rightarrow> page
                    | Some ex \<Rightarrow>
                        (if get_or [] (ex ''page'') \<noteq> [] then get_or [] (ex ''page'')
                         else page));
                 address = get_page_address best_page ''en''
             in (rows @
                   [\<lparr>r_page = best_page, r_address = address, r_status = ''active'',
                     r_tag = tag_type, r_id = element_id, r_en = en_content,
                     r_es = es_content\<rparr>],
                 processed_ids))"

definition create_page ::
  "tag_info \<Rightarrow> (string \<rightharpoonup> csv_row) \<Rightarrow> row list \<times> string set \<Rightarrow> string \<times> ids_data
     \<Rightarrow> row list \<times> string set" where
  "create_page tinfo existing_data st pg =
     foldl (create_step tinfo existing_data (fst pg)) st (snd pg)"

definition create_updated_csv :: "page_ids \<Rightarrow> tag_info \<Rightarrow> (string \<rightharpoonup> csv_row) \<Rightarrow> row list" where
  "create_updated_csv pids tinfo existing_data =
     fst (foldl (create_page tinfo existing_data) ([], {}) pids)"

subsection \<open>\<open>write_csv\<close>\<close>

text \<open>
  The nested function \<open>id_score\<close>: three independent tests, then the length.
\<close>

definition id_score :: "string \<Rightarrow> int" where
  "id_score element_id =
     (let score = 0;
          score = (if CHR ''_'' \<in> set element_id then score - 1000 else score);
          score = (if CHR ''-'' \<in> set element_id then score + 100 else score);
          score = (if \<not> (CHR ''-'' \<in> set element_id \<or> CHR ''_'' \<in> set element_id)
                   then score - 50 else score)
      in score - int (length element_id))"

text \<open>
  The loop of \<open>write_csv\<close> over \<open>rows\<close>. Its state is the dict \<open>seen_text\<close> (source
  text to the row kept for it) and the list \<open>deduplicated_rows\<close>.
\<close>

type_synonym dedup_state = "(string \<rightharpoonup> row) \<times> row list"

fun dedup_step :: "dedup_state \<Rightarrow> row \<Rightarrow> dedup_state" where
  "dedup_step (seen_text, deduplicated_rows) rw =
     (case seen_text (r_en rw) of
        Some existing \<Rightarrow>
          (if id_score (r_id rw) > id_score (r_id existing)
           then (seen_text(r_en rw \<mapsto> rw),
                 filter (\<lambda>r. r_id r \<noteq> r_id existing) deduplicated_rows @ [rw])
           else (seen_text, deduplicated_rows))
      | None \<Rightarrow> (seen_text(r_en rw \<mapsto> rw), deduplicated_rows @ [rw]))"

text \<open>
  \<open>write_csv\<close> hands \<open>deduplicated_rows\<close> to \<open>csv.DictWriter\<close> under the fixed header
  \<open>page, address, status, tag, id, en, es\<close>. The file is a function of that list, so
  the model returns the list: the rows of the written file, in file order.
\<close>

definition write_csv :: "row list \<Rightarrow> row list" where
  "write_csv rows = snd (foldl dedup_step (Map.empty, []) rows)"

subsection \<open>\<open>main\<close> of \<open>sync_translations\<close>\<close>

text \<open>
  One run: scan, load the prior Store, merge, keep the active rows, write. The
  result is the written Store, or the exception the scan raised (then nothing
  is written).
\<close>

definition sync_main :: "html_files \<Rightarrow> store_file \<Rightarrow> py_error + row list" where
  "sync_main fs csv_file =
     (case scan_html_files fs of
        Inl err \<Rightarrow> Inl err
      | Inr (pids, tinfo) \<Rightarrow>
          (let existing_data = load_existing_csv csv_file;
               updated_rows = create_updated_csv pids tinfo existing_data;
               active_rows = filter (\<lambda>r. r_status r = ''active'') updated_rows;
               final_rows = active_rows
           in Inr (write_csv final_rows)))"

text \<open>
  The Store file as the next run reads it. \<open>write_csv\<close> opens the file with
  \<open>newline=''\<close>, so the writer's quoted fields reach the file as they are;
  \<open>load_existing_csv\<close> opens it without \<open>newline=''\<close>, so the reader gets the
  text with universal newlines and every field comes back with its carriage
  returns turned into line feeds. Quoting and unquoting by the \<open>csv\<close> module,
  which is library code, is taken to return a field as it stands in the file.
\<close>

definition read_back :: "csv_row \<Rightarrow> csv_row" where
  "read_back rw = (\<lambda>column. map_option universal_newlines (rw column))"

definition written_store :: "row list \<Rightarrow> store_file" where
  "written_store rows = Some (map (read_back \<circ> row_dict) rows)"

section \<open>The Generator: \<open>generate_i18n_all\<close>\<close>

subsection \<open>The patterns of \<open>translate_content\<close>\<close>

text \<open>
  The three patterns are sequences of literals (what \<open>re.escape\<close> yields), greedy
  starred character classes and capture groups. \<open>m_atom\<close> lists the ways one
  piece can match a prefix of the text, as (matched, rest), in the order the
  backtracking matcher tries them: a greedy star gives the longest run first.
\<close>

definition dquote :: char where
  "dquote = CHR 0x22"

definition backslash :: char where
  "backslash = CHR 0x5C"

datatype cls = Ws | NotGt

fun in_cls :: "cls \<Rightarrow> char \<Rightarrow> bool" where
  "in_cls Ws c = is_space c"
| "in_cls NotGt c = (c \<noteq> CHR ''>'')"

definition lower :: "char \<Rightarrow> char" where
  "lower c =
     (if (65::nat) \<le> of_char c \<and> of_char c \<le> (90::nat)
      then char_of (of_char c + (32::nat)) else c)"

datatype atom =
    Lit string
  | LitI string
  | Star cls
  | AltI "string list"

definition m_lit :: "string \<Rightarrow> string \<Rightarrow> (string \<times> string) list" where
  "m_lit l s = (if take (length l) s = l then [(l, drop (length l) s)] else [])"

definition m_liti :: "string \<Rightarrow> string \<Rightarrow> (string \<times> string) list" where
  "m_liti l s =
     (if length l \<le> length s \<and> map lower (take (length l) s) = map lower l
      then [(take (length l) s, drop (length l) s)] else [])"

fun m_atom :: "atom \<Rightarrow> string \<Rightarrow> (string \<times> string) list" where
  "m_atom (Lit l) s = m_lit l s"
| "m_atom (LitI l) s = m_liti l s"
| "m_atom (Star k) s =
     map (\<lambda>n. (take n s, drop n s)) (rev [0 ..< Suc (length (takeWhile (in_cls k) s))])"
| "m_atom (AltI ls) s = concat (map (\<lambda>l. m_liti l s) ls)"

datatype item = Plain atom | Capture atom

text \<open>
  All matches of a pattern at the start of the text, as (groups, rest), in the
  matcher's order of preference; the first is the match \<open>re\<close> reports there.
\<close>

fun m_seq :: "item list \<Rightarrow> string \<Rightarrow> (string list \<times> string) list" where
  "m_seq [] s = [([], s)]"
| "m_seq (Plain a # its) s = concat (map (\<lambda>cr. m_seq its (snd cr)) (m_atom a s))"
| "m_seq (Capture a # its) s =
     concat (map (\<lambda>cr. map (\<lambda>gr. (fst cr # fst gr, snd gr)) (m_seq its (snd cr))) (m_atom a s))"

text \<open>\<open>re.search\<close>: is there a match at some position.\<close>

fun re_search :: "item list \<Rightarrow> string \<Rightarrow> bool" where
  "re_search p [] = (m_seq p [] \<noteq> [])"
| "re_search p (c # cs) = (m_seq p (c # cs) \<noteq> [] \<or> re_search p cs)"

text \<open>
  \<open>re.sub\<close> with the replacement as a function of the groups: the leftmost
  match is replaced and the scan goes on behind it. Each of the three patterns
  begins with a literal that is not empty, so a match is never empty; the
  branch for an empty match puts the replacement in and steps over one
  character.
\<close>

function re_sub :: "item list \<Rightarrow> (string list \<Rightarrow> string) \<Rightarrow> string \<Rightarrow> string" where
  "re_sub p repl s =
     (case m_seq p s of
        [] \<Rightarrow> (case s of [] \<Rightarrow> [] | c # cs \<Rightarrow> c # re_sub p repl cs)
      | gr # _ \<Rightarrow>
          (if length (snd gr) < length s then repl (fst gr) @ re_sub p repl (snd gr)
           else (case s of [] \<Rightarrow> repl (fst gr) | c # cs \<Rightarrow> repl (fst gr) @ c # re_sub p repl cs)))"
  by pat_completeness auto
termination
  by (relation "measure (\<lambda>(p, repl, s). length s)") auto

text \<open>Group \<open>n\<close> of a match, counted from 1.\<close>

definition group :: "string list \<Rightarrow> nat \<Rightarrow> string" where
  "group gs n = (if 0 < n \<and> n \<le> length gs then gs ! (n - 1) else [])"

text \<open>
  \<open>id="ID"([^>]*)>\s*EN\s*<\<close>,  \<open>(>)\s*EN\s*(<)\<close>  and
  \<open>(placeholder|title|aria-label)="\s*EN\s*"\<close>, the last with \<open>re.IGNORECASE\<close>.
\<close>

definition id_pattern :: "string \<Rightarrow> string \<Rightarrow> item list" where
  "id_pattern element_id en_text =
     [Plain (Lit (''id='' @ [dquote] @ element_id @ [dquote])), Capture (Star NotGt),
      Plain (Lit ''>''), Plain (Star Ws), Plain (Lit en_text), Plain (Star Ws),
      Plain (Lit ''<'')]"

definition text_pattern :: "string \<Rightarrow> item list" where
  "text_pattern en_text =
     [Capture (Lit ''>''), Plain (Star Ws), Plain (Lit en_text), Plain (Star Ws),
      Capture (Lit ''<'')]"

definition attr_pattern :: "string \<Rightarrow> item list" where
  "attr_pattern en_text =
     [Capture (AltI [''placeholder'', ''title'', ''aria-label'']),
      Plain (Lit (''='' @ [dquote])), Plain (Star Ws), Plain (LitI en_text),
      Plain (Star Ws), Plain (Lit [dquote])]"

text \<open>
  The replacement templates are built by putting the Store texts into a
  string that \<open>re.sub\<close> then reads as a template, before it looks for a match.
  In the fallback template \<open>\1TARGET\2\<close> the reference \<open>\1\<close> runs into a target
  that begins with a digit. With two octal digits at the head of the target the
  three digits are one octal escape: the template yields that character and
  no group 1. With any other continuation the digits are a reference to a group
  from 10 up, which the pattern does not have, and \<open>re.sub\<close> raises \<open>re.error\<close>.
  \<open>text_template\<close> gives whether group 1 is put out and the literal text between
  it and group 2.
\<close>

definition is_digit :: "char \<Rightarrow> bool" where
  "is_digit c = ((48::nat) \<le> of_char c \<and> of_char c \<le> (57::nat))"

definition is_octdigit :: "char \<Rightarrow> bool" where
  "is_octdigit c = ((48::nat) \<le> of_char c \<and> of_char c \<le> (55::nat))"

definition text_template :: "string \<Rightarrow> py_error + bool \<times> string" where
  "text_template target_text =
     (case target_text of
        [] \<Rightarrow> Inr (True, [])
      | d1 # rest \<Rightarrow>
          (if \<not> is_digit d1 then Inr (True, target_text)
           else (case rest of
                   [] \<Rightarrow> Inl ReError
                 | d2 # rest2 \<Rightarrow>
                     (if is_octdigit d1 \<and> is_octdigit d2
                      then Inr (False,
                             char_of (64 + 8 * (of_char d1 - (48::nat)) + (of_char d2 - (48::nat)))
                               # rest2)
                      else Inl ReError))))"

subsection \<open>\<open>translate_content\<close>\<close>

type_synonym csv_translations = "string \<rightharpoonup> (string \<times> string) list"

text \<open>The body of the loop over \<open>translations.items()\<close>, for one Store row.\<close>

definition translate_row ::
  "csv_translations \<Rightarrow> string \<Rightarrow> string \<times> string \<Rightarrow> py_error + string" where
  "translate_row csv html kv =
     (let element_id = fst kv; target_text = snd kv in
      case csv ''en'' of
        None \<Rightarrow> Inl (KeyError ''en'')
      | Some en \<Rightarrow>
          (case map_of en element_id of
             None \<Rightarrow> Inr html
           | Some en_text \<Rightarrow>
               (if en_text = [] \<or> en_text = target_text then Inr html
                else if re_search (id_pattern element_id en_text) html then
                  (if backslash \<in> set element_id \<or> backslash \<in> set target_text
                   then Inl BackslashInTemplate
                   else Inr (re_sub (id_pattern element_id en_text)
                               (\<lambda>gs. ''id='' @ [dquote] @ element_id @ [dquote] @ group gs 1
                                       @ ''>'' @ target_text @ ''<'')
                               html))
                else if backslash \<in> set target_text then Inl BackslashInTemplate
                else
                  (case text_template target_text of
                     Inl err \<Rightarrow> Inl err
                   | Inr (with_group1, literal) \<Rightarrow>
                       (let html = re_sub (text_pattern en_text)
                                     (\<lambda>gs. (if with_group1 then group gs 1 else [])
                                             @ literal @ group gs 2) html
                        in Inr (re_sub (attr_pattern en_text)
                                  (\<lambda>gs. group gs 1 @ ''='' @ [dquote] @ target_text @ [dquote])
                                  html))))))"

fun translate_rows ::
  "csv_translations \<Rightarrow> string \<Rightarrow> (string \<times> string) list \<Rightarrow> py_error + string" where
  "translate_rows csv html [] = Inr html"
| "translate_rows csv html (kv # rest) =
     (case translate_row csv html kv of
        Inl err \<Rightarrow> Inl err
      | Inr html' \<Rightarrow> translate_rows csv html' rest)"

definition translate_content :: "string \<Rightarrow> string \<Rightarrow> csv_translations \<Rightarrow> py_error + string" where
  "translate_content html lang csv =
     (if lang = ''en'' then Inr html
      else translate_rows csv html (get_or [] (csv lang)))"

subsection \<open>\<open>load_translations_csv\<close> and \<open>load_translations\<close>\<close>

fun load_row ::
  "(string \<times> string) list \<times> (string \<times> string) list \<Rightarrow> csv_row
     \<Rightarrow> py_error + (string \<times> string) list \<times> (string \<times> string) list" where
  "load_row (en, es) rw =
     (if get_or ''active'' (rw ''status'') = ''deleted'' then Inr (en, es)
      else
        (case rw ''id'' of
           None \<Rightarrow> Inl (KeyError ''id'')
         | Some element_id \<Rightarrow>
             (case rw ''en'' of
                None \<Rightarrow> Inl (KeyError ''en'')
              | Some en_text \<Rightarrow>
                  (case rw ''es'' of
                     None \<Rightarrow> Inl (KeyError ''es'')
                   | Some es_text \<Rightarrow>
                       Inr (AList.update element_id en_text en,
                            AList.update element_id es_text es)))))"

fun load_rows ::
  "(string \<times> string) list \<times> (string \<times> string) list \<Rightarrow> csv_row list
     \<Rightarrow> py_error + (string \<times> string) list \<times> (string \<times> string) list" where
  "load_rows acc [] = Inr acc"
| "load_rows acc (rw # rest) =
     (case load_row acc rw of Inl err \<Rightarrow> Inl err | Inr acc' \<Rightarrow> load_rows acc' rest)"

definition load_translations_csv :: "store_file \<Rightarrow> py_error + csv_translations" where
  "load_translations_csv csv_file =
     (case csv_file of
        None \<Rightarrow> Inl (FileNotFoundError ''i18n/translations.csv'')
      | Some reader \<Rightarrow>
          (case load_rows ([], []) reader of
             Inl err \<Rightarrow> Inl err
           | Inr (en, es) \<Rightarrow> Inr [''en'' \<mapsto> en, ''es'' \<mapsto> es]))"

text \<open>
  The metadata tables \<open>i18n/en.json\<close> and \<open>i18n/es.json\<close>: absent, or the value
  \<open>json.load\<close> returns for them, of a type \<open>'j\<close> the model leaves open.
\<close>

definition load_translations :: "(string \<rightharpoonup> 'j) \<Rightarrow> string \<Rightarrow> py_error + 'j" where
  "load_translations json_files lang =
     (case json_files lang of
        None \<Rightarrow> Inl (FileNotFoundError (''i18n/'' @ lang @ ''.json''))
      | Some t \<Rightarrow> Inr t)"

subsection \<open>\<open>generate_page\<close> and \<open>main\<close>\<close>

text \<open>
  \<open>generate_page\<close> runs four rewrites of the head and of asset paths
  (\<open>translate_html_attributes\<close>, \<open>add_hreflang_tags\<close>, \<open>update_asset_paths\<close>,
  \<open>update_component_lang_attributes\<close>) and then \<open>translate_content\<close>. The four
  together are the parameter \<open>rewrite\<close>, from page name, language, metadata,
  \<open>is_default\<close> and document to the new document or an exception. The result
  \<open>None\<close> is the skipped page whose source file is absent.
\<close>

type_synonym 'j rewrite = "string \<Rightarrow> string \<Rightarrow> 'j \<Rightarrow> bool \<Rightarrow> string \<Rightarrow> py_error + string"

definition generate_page ::
  "'j rewrite \<Rightarrow> (string \<rightharpoonup> string) \<Rightarrow> string \<Rightarrow> string \<Rightarrow> 'j \<Rightarrow> csv_translations \<Rightarrow> bool
     \<Rightarrow> py_error + string option" where
  "generate_page rewrite files page_name lang translations csv is_default =
     (case files (page_name @ ''.html'') of
        None \<Rightarrow> Inr None
      | Some html \<Rightarrow>
          (case rewrite page_name lang translations is_default html of
             Inl err \<Rightarrow> Inl err
           | Inr html' \<Rightarrow>
               (case translate_content html' lang csv of
                  Inl err \<Rightarrow> Inl err
                | Inr html'' \<Rightarrow> Inr (Some html''))))"

text \<open>
  The state of a Generator run: the documents on disk and the paths written so
  far, in order. A run ends with this state and the exception that stopped it,
  if one did.
\<close>

record disk =
  files :: "string \<rightharpoonup> string"
  written :: "string list"

definition write_file :: "disk \<Rightarrow> string \<Rightarrow> string \<Rightarrow> disk" where
  "write_file d path html = \<lparr>files = (files d)(path \<mapsto> html), written = written d @ [path]\<rparr>"

fun gen_pages ::
  "'j rewrite \<Rightarrow> string \<Rightarrow> 'j \<Rightarrow> csv_translations \<Rightarrow> bool \<Rightarrow> disk \<Rightarrow> string list
     \<Rightarrow> py_error option \<times> disk" where
  "gen_pages rewrite lang translations csv is_default d [] = (None, d)"
| "gen_pages rewrite lang translations csv is_default d (page_name # rest) =
     (case generate_page rewrite (files d) page_name lang translations csv is_default of
        Inl err \<Rightarrow> (Some err, d)
      | Inr None \<Rightarrow> gen_pages rewrite lang translations csv is_default d rest
      | Inr (Some html) \<Rightarrow>
          (let output_file =
                 (if is_default then page_name @ ''.html''
                  else lang @ ''/'' @ page_name @ ''.html'')
           in gen_pages rewrite lang translations csv is_default
                (write_file d output_file html) rest))"

fun gen_langs ::
  "'j rewrite \<Rightarrow> (string \<rightharpoonup> 'j) \<Rightarrow> csv_translations \<Rightarrow> disk \<Rightarrow> string list
     \<Rightarrow> py_error option \<times> disk" where
  "gen_langs rewrite json_files csv d [] = (None, d)"
| "gen_langs rewrite json_files csv d (lang # rest) =
     (case load_translations json_files lang of
        Inl err \<Rightarrow> (Some err, d)
      | Inr translations \<Rightarrow>
          (case gen_pages rewrite lang translations csv (lang = ''en'') d pages of
             (Some err, d') \<Rightarrow> (Some err, d')
           | (None, d') \<Rightarrow> gen_langs rewrite json_files csv d' rest))"

definition languages :: "string list" where
  "languages = [''en'', ''es'']"

definition generate_main ::
  "'j rewrite \<Rightarrow> store_file \<Rightarrow> (string \<rightharpoonup> 'j) \<Rightarrow> (string \<rightharpoonup> string) \<Rightarrow> py_error option \<times> disk" where
  "generate_main rewrite csv_file json_files fs =
     (case load_translations_csv csv_file of
        Inl err \<Rightarrow> (Some err, \<lparr>files = fs, written = []\<rparr>)
      | Inr csv \<Rightarrow> gen_langs rewrite json_files csv \<lparr>files = fs, written = []\<rparr> languages)"

section \<open>Invariants and example data\<close>

text \<open>
  The invariant of the loop of \<open>write_csv\<close> after the rows \<open>ds\<close>: the kept rows
  are rows of \<open>ds\<close> with distinct identifiers, \<open>seen_text\<close> maps each source text
  of \<open>ds\<close> to the one kept row carrying it, and that row scores at least as high
  as every row of \<open>ds\<close> with the same text.
\<close>

definition dedup_inv :: "row list \<Rightarrow> dedup_state \<Rightarrow> bool" where
  "dedup_inv ds st =
     (set (snd st) \<subseteq> set ds \<and>
      distinct (map r_id (snd st)) \<and>
      (\<forall>r \<in> set (snd st). fst st (r_en r) = Some r) \<and>
      (\<forall>t r. fst st t = Some r \<longrightarrow> r \<in> set (snd st) \<and> r_en r = t) \<and>
      (\<forall>r \<in> set ds. \<exists>k. fst st (r_en r) = Some k \<and> id_score (r_id r) \<le> id_score (r_id k)))"

text \<open>Two rows with the source text \<open>Home\<close>, under \<open>nav_logo\<close> and under \<open>nav-logo\<close>.\<close>

definition nav_underscore_row :: row where
  "nav_underscore_row =
     \<lparr>r_page = ''index'', r_address = ''/index.html'', r_status = ''active'', r_tag = ''a'',
      r_id = ''nav_logo'', r_en = ''Home'', r_es = ''Inicio''\<rparr>"

definition nav_hyphen_row :: row where
  "nav_hyphen_row =
     \<lparr>r_page = ''index'', r_address = ''/index.html'', r_status = ''active'', r_tag = ''a'',
      r_id = ''nav-logo'', r_en = ''Home'', r_es = ''Inicio''\<rparr>"

text \<open>
  \<open>create_updated_csv\<close> in closed form. \<open>items\<close> is the order in which the two
  nested loops meet the scanned entries, \<open>firsts\<close> keeps of each identifier the
  first entry outside the set already processed, \<open>translatable\<close> is the test on
  the English content and \<open>candidate_row\<close> the row the loop body appends.
\<close>

type_synonym scan_item = "string \<times> string \<times> content_data"

definition items :: "page_ids \<Rightarrow> scan_item list" where
  "items pids = concat (map (\<lambda>pg. map (\<lambda>kv. (fst pg, kv)) (snd pg)) pids)"

fun firsts :: "string set \<Rightarrow> scan_item list \<Rightarrow> scan_item list" where
  "firsts S [] = []"
| "firsts S ((page, element_id, cd) # rest) =
     (if element_id \<in> S then firsts S rest
      else (page, element_id, cd) # firsts (insert element_id S) rest)"

definition en_of :: "content_data \<Rightarrow> string" where
  "en_of cd = (case d_en cd of None \<Rightarrow> [] | Some c \<Rightarrow> to_str c)"

definition es_of :: "content_data \<Rightarrow> string" where
  "es_of cd = (case d_es cd of None \<Rightarrow> [] | Some c \<Rightarrow> to_str c)"

definition stored :: "(string \<rightharpoonup> csv_row) \<Rightarrow> string \<Rightarrow> string \<Rightarrow> string" where
  "stored existing_data element_id field =
     (case existing_data element_id of None \<Rightarrow> [] | Some ex \<Rightarrow> get_or [] (ex field))"

definition candidate_row :: "tag_info \<Rightarrow> (string \<rightharpoonup> csv_row) \<Rightarrow> scan_item \<Rightarrow> row" where
  "candidate_row tinfo existing_data it =
     (let page = fst it; element_id = fst (snd it); cd = snd (snd it);
          best_page = (if stored existing_data element_id ''page'' \<noteq> []
                       then stored existing_data element_id ''page'' else page)
      in \<lparr>r_page = best_page,
          r_address = get_page_address best_page ''en'',
          r_status = ''active'',
          r_tag = get_or ''unknown'' (map_of (get_or [] (map_of tinfo page)) element_id),
          r_id = element_id,
          r_en = en_of cd,
          r_es = (if stored existing_data element_id ''es'' \<noteq> []
                  then stored existing_data element_id ''es'' else es_of cd)\<rparr>)"

definition translatable :: "scan_item \<Rightarrow> bool" where
  "translatable it = (strip (en_of (snd (snd it))) \<noteq> [])"

definition item_id :: "scan_item \<Rightarrow> string" where
  "item_id it = fst (snd it)"

text \<open>
  A scan in which \<open>hero\<close> has only blanks as English content while the prior
  Store holds a row for it, beside \<open>title\<close> with the content \<open>Hi\<close>.
\<close>

definition blank_hero_pids :: page_ids where
  "blank_hero_pids =
     [(''index'',
       [(''hero'', \<lparr>d_en = Some (Text ''  ''), d_es = Some (Text ''Hola'')\<rparr>),
        (''title'', \<lparr>d_en = Some (Text ''Hi''), d_es = None\<rparr>)])]"

definition hero_store :: "string \<rightharpoonup> csv_row" where
  "hero_store =
     [''hero'' \<mapsto> [''page'' \<mapsto> ''index'', ''id'' \<mapsto> ''hero'', ''en'' \<mapsto> ''Hello'',
                       ''es'' \<mapsto> ''Hola'']]"

definition title_row :: row where
  "title_row =
     \<lparr>r_page = ''index'', r_address = ''/index.html'', r_status = ''active'',
      r_tag = ''unknown'', r_id = ''title'', r_en = ''Hi'', r_es = ''''\<rparr>"

text \<open>
  The document \<open><div id="outer"> x <span id="inner">y  z</span> w</div>\<close> as the
  parser delivers it: the capture of \<open>outer\<close> is still open when \<open>inner\<close> starts.
\<close>

definition nested_doc :: "event list" where
  "nested_doc =
     [StartTag ''div'' [(''id'', ''outer'')], Data '' x '',
      StartTag ''span'' [(''id'', ''inner'')], Data ''y  z'', EndTag ''span'',
      Data '' w'', EndTag ''div'']"

text \<open>
  A template with the heading \<open><h1 id="hero-title">Capture the Moment</h1>\<close>, the
  same heading translated and emptied, a page that repeats the text in a
  paragraph without identifier, and Stores with one row: translated, not
  translated, with equal texts, and under a legacy key that is no identifier
  of the page.
\<close>

definition hero_template :: string where
  "hero_template = ''<h1 id='' @ [dquote] @ ''hero-title'' @ [dquote] @ ''>Capture the Moment</h1>''"

definition hero_translated :: string where
  "hero_translated = ''<h1 id='' @ [dquote] @ ''hero-title'' @ [dquote] @ ''>Captura el Momento</h1>''"

definition hero_emptied :: string where
  "hero_emptied = ''<h1 id='' @ [dquote] @ ''hero-title'' @ [dquote] @ ''></h1>''"

definition hero_csv :: csv_translations where
  "hero_csv = [''en'' \<mapsto> [(''hero-title'', ''Capture the Moment'')],
               ''es'' \<mapsto> [(''hero-title'', ''Captura el Momento'')]]"

definition untranslated_csv :: csv_translations where
  "untranslated_csv = [''en'' \<mapsto> [(''hero-title'', ''Capture the Moment'')],
                       ''es'' \<mapsto> [(''hero-title'', '''')]]"

definition same_csv :: csv_translations where
  "same_csv = [''en'' \<mapsto> [(''hero-title'', ''Capture the Moment'')],
                ''es'' \<mapsto> [(''hero-title'', ''Capture the Moment'')]]"

definition legacy_csv :: csv_translations where
  "legacy_csv = [''en'' \<mapsto> [(''hero_title'', ''Capture the Moment'')],
                  ''es'' \<mapsto> [(''hero_title'', ''Captura el Momento'')]]"






text \<open>
  A Generator run in which the head rewrites change nothing, the only template
  is \<open>index.html\<close> and of the metadata tables only \<open>en.json\<close> exists.
\<close>

definition no_rewrite :: "unit rewrite" where
  "no_rewrite page_name lang translations is_default html = Inr html"

definition index_only :: "string \<rightharpoonup> string" where
  "index_only = [''index.html'' \<mapsto> ''<p>x</p>'']"

definition en_only :: "string \<rightharpoonup> unit" where
  "en_only = [''en'' \<mapsto> ()]"

text \<open>
  Two runs of the loop of \<open>write_csv\<close> over rows that agree pairwise in
  identifier and source text stay in step: \<open>twin_state\<close> relates their states
  through one list of row pairs.
\<close>

definition same_key :: "row \<times> row \<Rightarrow> bool" where
  "same_key z = (r_id (fst z) = r_id (snd z) \<and> r_en (fst z) = r_en (snd z))"

definition twin_state ::
  "(string \<rightharpoonup> row \<times> row) \<Rightarrow> (row \<times> row) list \<Rightarrow> dedup_state \<Rightarrow> dedup_state \<Rightarrow> bool" where
  "twin_state sz oz sx sy =
     (sx = (map_option fst \<circ> sz, map fst oz) \<and>
      sy = (map_option snd \<circ> sz, map snd oz) \<and>
      (\<forall>z \<in> set oz. same_key z) \<and> (\<forall>t z. sz t = Some z \<longrightarrow> same_key z))"

text \<open>
  A site with one page. \<open>index.html\<close> carries the text \<open>Home\<close> under \<open>nav_logo\<close> and
  under \<open>nav-logo\<close> and a heading \<open>title\<close>; the generated \<open>es/index.html\<close> carries
  the heading. The prior Store holds a translation of \<open>title\<close> and a row
  \<open>old-id\<close> that no page carries any more.
\<close>

definition demo_index :: "event list" where
  "demo_index =
     [StartTag ''a'' [(''id'', ''nav_logo'')], Data ''Home'', EndTag ''a'',
      StartTag ''a'' [(''id'', ''nav-logo'')], Data ''Home'', EndTag ''a'',
      StartTag ''h1'' [(''id'', ''title'')], Data '' Hi  there '', EndTag ''h1'']"

definition demo_index_es :: "event list" where
  "demo_index_es = [StartTag ''h1'' [(''id'', ''title'')], Data ''Hola'', EndTag ''h1'']"

definition demo_fs :: html_files where
  "demo_fs = [''index.html'' \<mapsto> demo_index, ''es/index.html'' \<mapsto> demo_index_es]"

definition demo_store :: store_file where
  "demo_store =
     Some [[''page'' \<mapsto> ''about'', ''address'' \<mapsto> ''/about.html'', ''status'' \<mapsto> ''active'',
            ''tag'' \<mapsto> ''p'', ''id'' \<mapsto> ''old-id'', ''en'' \<mapsto> ''Gone'', ''es'' \<mapsto> ''Ido''],
           [''page'' \<mapsto> ''about'', ''address'' \<mapsto> ''/about.html'', ''status'' \<mapsto> ''active'',
            ''tag'' \<mapsto> ''h1'', ''id'' \<mapsto> ''title'', ''en'' \<mapsto> ''Hi'', ''es'' \<mapsto> ''Hola a todos'']]"

definition demo_rows :: "row list" where
  "demo_rows =
     [\<lparr>r_page = ''index'', r_address = ''/index.html'', r_status = ''active'', r_tag = ''a'',
       r_id = ''nav-logo'', r_en = ''Home'', r_es = ''''\<rparr>,
      \<lparr>r_page = ''about'', r_address = ''/about.html'', r_status = ''active'', r_tag = ''h1'',
       r_id = ''title'', r_en = ''Hi there'', r_es = ''Hola a todos''\<rparr>]"

text \<open>
  A row none of whose fields holds a carriage return.
\<close>

definition cr_free :: "row \<Rightarrow> bool" where
  "cr_free r =
     (cr \<notin> set (r_page r) \<and> cr \<notin> set (r_address r) \<and> cr \<notin> set (r_status r) \<and>
      cr \<notin> set (r_tag r) \<and> cr \<notin> set (r_id r) \<and> cr \<notin> set (r_en r) \<and>
      cr \<notin> set (r_es r))"

text \<open>
  A site with the page \<open><div id="outer">Hello<span id="inner">x</span></div>\<close> and
  the generated Spanish page
  \<open><div id="outer">Hola&#13;mundo<span id="inner">y</span></div>\<close>, and no Store yet.
  The parser delivers the character reference as a carriage return. The
  capture of \<open>outer\<close> is cut off by \<open>inner\<close>, so its text is not cleaned and the
  carriage return reaches the \<open>es\<close> field of the row. \<open>cr_rows_first\<close> and
  \<open>cr_rows_second\<close> are the rows of the first and of the second run.
\<close>

definition cr_index :: "event list" where
  "cr_index =
     [StartTag ''div'' [(''id'', ''outer'')], Data ''Hello'',
      StartTag ''span'' [(''id'', ''inner'')], Data ''x'', EndTag ''span'', EndTag ''div'']"

definition cr_index_es :: "event list" where
  "cr_index_es =
     [StartTag ''div'' [(''id'', ''outer'')], Data (''Hola'' @ [cr] @ ''mundo''),
      StartTag ''span'' [(''id'', ''inner'')], Data ''y'', EndTag ''span'', EndTag ''div'']"

definition cr_fs :: html_files where
  "cr_fs = [''index.html'' \<mapsto> cr_index, ''es/index.html'' \<mapsto> cr_index_es]"

definition cr_inner_row :: row where
  "cr_inner_row =
     \<lparr>r_page = ''index'', r_address = ''/index.html'', r_status = ''active'',
      r_tag = ''span'', r_id = ''inner'', r_en = ''x'', r_es = ''y''\<rparr>"

definition cr_rows_first :: "row list" where
  "cr_rows_first =
     [\<lparr>r_page = ''index'', r_address = ''/index.html'', r_status = ''active'',
       r_tag = ''div'', r_id = ''outer'', r_en = ''Hello'', r_es = ''Hola'' @ [cr] @ ''mundo''\<rparr>,
      cr_inner_row]"

definition cr_rows_second :: "row list" where
  "cr_rows_second =
     [\<lparr>r_page = ''index'', r_address = ''/index.html'', r_status = ''active'',
       r_tag = ''div'', r_id = ''outer'', r_en = ''Hello'', r_es = ''Hola'' @ [lf] @ ''mundo''\<rparr>,
      cr_inner_row]"

section \<open>Properties of \<open>write_csv\<close>\<close>

lemma id_score_nav_logo: "id_score ''nav_logo'' = -1008"
  by (simp add: id_score_def)

lemma id_score_nav_hyphen_logo: "id_score ''nav-logo'' = 92"
  by (simp add: id_score_def)

lemma dedup_inv_init: "dedup_inv [] (Map.empty, [])"
  by (simp add: dedup_inv_def)

lemma filter_other_id:
  assumes "distinct (map r_id out)" "ex \<in> set out"
  shows "set (filter (\<lambda>r. r_id r \<noteq> r_id ex) out) = set out - {ex}"
  using assms by (auto simp: distinct_map inj_on_def)

lemma dedup_invI:
  assumes "set out \<subseteq> set ds" "distinct (map r_id out)"
    "\<And>r. r \<in> set out \<Longrightarrow> seen (r_en r) = Some r"
    "\<And>t r. seen t = Some r \<Longrightarrow> r \<in> set out \<and> r_en r = t"
    "\<And>r. r \<in> set ds \<Longrightarrow> \<exists>k. seen (r_en r) = Some k \<and> id_score (r_id r) \<le> id_score (r_id k)"
  shows "dedup_inv ds (seen, out)"
  using assms unfolding dedup_inv_def by auto

lemma dedup_inv_step:
  assumes inv: "dedup_inv ds st" and new: "r_id rw \<notin> r_id ` set ds"
  shows "dedup_inv (ds @ [rw]) (dedup_step st rw)"
proof (cases st)
  case (Pair seen out)
  from inv Pair have sub: "set out \<subseteq> set ds" and dist: "distinct (map r_id out)"
    and out_seen: "\<And>r. r \<in> set out \<Longrightarrow> seen (r_en r) = Some r"
    and seen_out: "\<And>t r. seen t = Some r \<Longrightarrow> r \<in> set out \<and> r_en r = t"
    and best: "\<And>r. r \<in> set ds \<Longrightarrow> \<exists>k. seen (r_en r) = Some k \<and> id_score (r_id r) \<le> id_score (r_id k)"
    by (auto simp: dedup_inv_def)
  have fresh: "r_id rw \<notin> r_id ` set out" using sub new by auto
  show ?thesis
  proof (cases "seen (r_en rw)")
    case None
    have step: "dedup_step st rw = (seen(r_en rw \<mapsto> rw), out @ [rw])"
      using Pair None by simp
    have other: "r_en r \<noteq> r_en rw" if "r \<in> set out" for r
      using out_seen[OF that] None by auto
    have other_ds: "r_en r \<noteq> r_en rw" if "r \<in> set ds" for r
      using best[OF that] None by auto
    show ?thesis unfolding step
    proof (rule dedup_invI)
      show "set (out @ [rw]) \<subseteq> set (ds @ [rw])" using sub by auto
      show "distinct (map r_id (out @ [rw]))" using dist fresh by auto
      show "(seen(r_en rw \<mapsto> rw)) (r_en r) = Some r" if "r \<in> set (out @ [rw])" for r
        using that other out_seen by auto
      show "r \<in> set (out @ [rw]) \<and> r_en r = t" if "(seen(r_en rw \<mapsto> rw)) t = Some r" for t r
        using that seen_out by (auto split: if_splits)
      show "\<exists>k. (seen(r_en rw \<mapsto> rw)) (r_en r) = Some k \<and> id_score (r_id r) \<le> id_score (r_id k)"
        if "r \<in> set (ds @ [rw])" for r
        using that best other_ds by auto
    qed
  next
    case (Some ex)
    have ex_out: "ex \<in> set out" and ex_en: "r_en ex = r_en rw"
      using seen_out[OF Some] by auto
    show ?thesis
    proof (cases "id_score (r_id rw) > id_score (r_id ex)")
      case False
      have step: "dedup_step st rw = (seen, out)"
        using Pair Some False by simp
      show ?thesis unfolding step
      proof (rule dedup_invI)
        show "set out \<subseteq> set (ds @ [rw])" using sub by auto
        show "distinct (map r_id out)" by (rule dist)
        show "seen (r_en r) = Some r" if "r \<in> set out" for r by (rule out_seen[OF that])
        show "r \<in> set out \<and> r_en r = t" if "seen t = Some r" for t r by (rule seen_out[OF that])
        show "\<exists>k. seen (r_en r) = Some k \<and> id_score (r_id r) \<le> id_score (r_id k)"
          if "r \<in> set (ds @ [rw])" for r
        proof (cases "r = rw")
          case True
          then show ?thesis using Some False by auto
        next
          case False
          then show ?thesis using that best by auto
        qed
      qed
    next
      case True
      let ?out = "filter (\<lambda>r. r_id r \<noteq> r_id ex) out"
      have step: "dedup_step st rw = (seen(r_en rw \<mapsto> rw), ?out @ [rw])"
        using Pair Some True by simp
      have fset: "set ?out = set out - {ex}" by (rule filter_other_id[OF dist ex_out])
      have d2: "distinct (map r_id ?out)" using dist by (simp add: distinct_map_filter)
      have other: "r_en r \<noteq> r_en rw" if "r \<in> set ?out" for r
      proof
        assume "r_en r = r_en rw"
        moreover have "r \<in> set out" "r \<noteq> ex" using that fset by auto
        ultimately show False using out_seen[of r] Some by auto
      qed
      show ?thesis unfolding step
      proof (rule dedup_invI)
        show "set (?out @ [rw]) \<subseteq> set (ds @ [rw])" using sub by auto
        show "distinct (map r_id (?out @ [rw]))" using d2 fresh by auto
        show "(seen(r_en rw \<mapsto> rw)) (r_en r) = Some r" if "r \<in> set (?out @ [rw])" for r
        proof (cases "r = rw")
          case True
          then show ?thesis by simp
        next
          case False
          then have "r \<in> set ?out" using that by auto
          then show ?thesis using other[of r] out_seen[of r] by auto
        qed
        show "r \<in> set (?out @ [rw]) \<and> r_en r = t" if "(seen(r_en rw \<mapsto> rw)) t = Some r" for t r
        proof (cases "t = r_en rw")
          case True
          then show ?thesis using that by auto
        next
          case False
          then have st: "seen t = Some r" using that by auto
          then have "r \<in> set out" "r_en r = t" using seen_out by auto
          moreover have "r \<noteq> ex" using \<open>r_en r = t\<close> False ex_en by auto
          ultimately show ?thesis using fset by auto
        qed
        show "\<exists>k. (seen(r_en rw \<mapsto> rw)) (r_en r) = Some k \<and> id_score (r_id r) \<le> id_score (r_id k)"
          if "r \<in> set (ds @ [rw])" for r
        proof (cases "r_en r = r_en rw")
          case eq: True
          show ?thesis
          proof (cases "r = rw")
            case True
            then show ?thesis by simp
          next
            case False
            then have "r \<in> set ds" using that by auto
            from best[OF this] eq Some \<open>id_score (r_id rw) > id_score (r_id ex)\<close>
            show ?thesis by auto
          qed
        next
          case False
          then have "r \<in> set ds" using that by auto
          from best[OF this] False show ?thesis by auto
        qed
      qed
    qed
  qed
qed

lemma dedup_inv_foldl:
  "dedup_inv ds st \<Longrightarrow> distinct (map r_id (ds @ rows)) \<Longrightarrow>
   dedup_inv (ds @ rows) (foldl dedup_step st rows)"
proof (induction rows arbitrary: ds st)
  case Nil
  then show ?case by simp
next
  case (Cons rw rows)
  have "dedup_inv (ds @ [rw]) (dedup_step st rw)"
    using Cons.prems by (intro dedup_inv_step) auto
  from Cons.IH[OF this] Cons.prems(2) show ?case by simp
qed

lemma dedup_inv_write_csv:
  "distinct (map r_id rows) \<Longrightarrow> dedup_inv rows (foldl dedup_step (Map.empty, []) rows)"
  using dedup_inv_foldl[OF dedup_inv_init, of rows] by simp

lemma write_csv_sub: "distinct (map r_id rows) \<Longrightarrow> set (write_csv rows) \<subseteq> set rows"
  using dedup_inv_write_csv[of rows] by (simp add: dedup_inv_def write_csv_def)

lemma write_csv_distinct: "distinct (map r_id rows) \<Longrightarrow> distinct (map r_id (write_csv rows))"
  using dedup_inv_write_csv[of rows] by (simp add: dedup_inv_def write_csv_def)

lemma write_csv_one_per_text:
  assumes "distinct (map r_id rows)" "k \<in> set (write_csv rows)" "k' \<in> set (write_csv rows)"
    "r_en k = r_en k'"
  shows "k = k'"
  using dedup_inv_write_csv[OF assms(1)] assms(2-4)
  unfolding dedup_inv_def write_csv_def by (metis option.inject)

lemma write_csv_best:
  assumes "distinct (map r_id rows)" "r \<in> set rows"
  shows "\<exists>k \<in> set (write_csv rows). r_en k = r_en r \<and> id_score (r_id r) \<le> id_score (r_id k)"
  using dedup_inv_write_csv[OF assms(1)] assms(2)
  unfolding dedup_inv_def write_csv_def by (metis)


lemma filter_single:
  "distinct xs \<Longrightarrow> a \<in> set xs \<Longrightarrow> P a \<Longrightarrow> (\<forall>x \<in> set xs. P x \<longrightarrow> x = a) \<Longrightarrow> filter P xs = [a]"
proof (induction xs)
  case Nil
  then show ?case by simp
next
  case (Cons x xs)
  show ?case
  proof (cases "x = a")
    case True
    have "a \<notin> set xs" using Cons.prems(1) True by simp
    then have "\<forall>y \<in> set xs. \<not> P y" using Cons.prems(4) by auto
    then have "filter P xs = []" by (simp add: filter_empty_conv)
    then show ?thesis using True Cons.prems(3) by simp
  next
    case False
    then have nP: "\<not> P x" using Cons.prems(4) by auto
    have "a \<in> set xs" using Cons.prems(2) False by auto
    moreover have "distinct xs" using Cons.prems(1) by simp
    moreover have "\<forall>y \<in> set xs. P y \<longrightarrow> y = a" using Cons.prems(4) by simp
    ultimately have "filter P xs = [a]" using Cons.IH Cons.prems(3) by blast
    then show ?thesis using nP by simp
  qed
qed

lemma write_csv_rows_distinct:
  "distinct (map r_id rows) \<Longrightarrow> distinct (write_csv rows)"
  using write_csv_distinct[of rows] by (simp add: distinct_map)

text \<open>
  Claim C2. When rows carry the same source text under different identifiers,
  \<open>write_csv\<close> keeps, of those rows, only the one whose identifier has the
  highest score, whatever the order of the rows; the score is 100 for a hyphen,
  minus 1000 for an underscore, minus 50 when there is neither, minus the
  length of the identifier.
\<close>

theorem write_csv_keeps_best_id:
  assumes "distinct (map r_id rows)" and "a \<in> set rows"
    and "\<forall>b \<in> set rows. b \<noteq> a \<and> r_en b = r_en a \<longrightarrow> id_score (r_id b) < id_score (r_id a)"
  shows "filter (\<lambda>r. r_en r = r_en a) (write_csv rows) = [a] \<and>
         (\<forall>i. id_score i =
            (if CHR ''-'' \<in> set i then 100 else 0)
            + (if CHR ''_'' \<in> set i then - 1000 else 0)
            + (if CHR ''-'' \<notin> set i \<and> CHR ''_'' \<notin> set i then - 50 else 0)
            - int (length i))"
proof
  obtain k where k: "k \<in> set (write_csv rows)" "r_en k = r_en a"
    "id_score (r_id a) \<le> id_score (r_id k)"
    using write_csv_best[OF assms(1,2)] by blast
  have "k \<in> set rows" using write_csv_sub[OF assms(1)] k(1) by blast
  then have "k = a" using assms(3) k(2,3) by force
  then have a_in: "a \<in> set (write_csv rows)" using k(1) by simp
  have only: "\<forall>x \<in> set (write_csv rows). r_en x = r_en a \<longrightarrow> x = a"
    using write_csv_one_per_text[OF assms(1) _ a_in] by blast
  show "filter (\<lambda>r. r_en r = r_en a) (write_csv rows) = [a]"
    by (rule filter_single[OF write_csv_rows_distinct[OF assms(1)] a_in _ only]) simp
  show "\<forall>i. id_score i =
            (if CHR ''-'' \<in> set i then 100 else 0)
            + (if CHR ''_'' \<in> set i then - 1000 else 0)
            + (if CHR ''-'' \<notin> set i \<and> CHR ''_'' \<notin> set i then - 50 else 0)
            - int (length i)"
    by (simp add: id_score_def Let_def)
qed

theorem write_csv_keeps_best_id_witness:
  "filter (\<lambda>r. r_en r = r_en nav_hyphen_row) (write_csv [nav_underscore_row, nav_hyphen_row])
     = [nav_hyphen_row]
   \<and> filter (\<lambda>r. r_en r = r_en nav_hyphen_row) (write_csv [nav_hyphen_row, nav_underscore_row])
     = [nav_hyphen_row]
   \<and> r_en nav_hyphen_row = ''Home'' \<and> r_en nav_underscore_row = ''Home''
   \<and> r_id nav_hyphen_row = ''nav-logo'' \<and> r_id nav_underscore_row = ''nav_logo''"
proof -
  have en: "r_en nav_hyphen_row = ''Home''" "r_en nav_underscore_row = ''Home''"
    "r_id nav_hyphen_row = ''nav-logo''" "r_id nav_underscore_row = ''nav_logo''"
    by (simp_all add: nav_underscore_row_def nav_hyphen_row_def)
  have sc: "id_score (r_id nav_underscore_row) < id_score (r_id nav_hyphen_row)"
    by (simp add: en id_score_def)
  have ne: "r_id nav_underscore_row \<noteq> r_id nav_hyphen_row"
    by (simp add: en)
  have d1: "distinct (map r_id [nav_underscore_row, nav_hyphen_row])"
    using ne by simp
  have d2: "distinct (map r_id [nav_hyphen_row, nav_underscore_row])"
    using ne by auto
  have b1: "\<forall>b \<in> set [nav_underscore_row, nav_hyphen_row].
      b \<noteq> nav_hyphen_row \<and> r_en b = r_en nav_hyphen_row
        \<longrightarrow> id_score (r_id b) < id_score (r_id nav_hyphen_row)"
    using sc by simp
  have b2: "\<forall>b \<in> set [nav_hyphen_row, nav_underscore_row].
      b \<noteq> nav_hyphen_row \<and> r_en b = r_en nav_hyphen_row
        \<longrightarrow> id_score (r_id b) < id_score (r_id nav_hyphen_row)"
    using sc by simp
  have f1: "filter (\<lambda>r. r_en r = r_en nav_hyphen_row)
      (write_csv [nav_underscore_row, nav_hyphen_row]) = [nav_hyphen_row]"
    using write_csv_keeps_best_id[OF d1 _ b1] by simp
  have f2: "filter (\<lambda>r. r_en r = r_en nav_hyphen_row)
      (write_csv [nav_hyphen_row, nav_underscore_row]) = [nav_hyphen_row]"
    using write_csv_keeps_best_id[OF d2 _ b2] by simp
  show ?thesis using f1 f2 en by blast
qed

lemma write_csv_nav_example:
  "write_csv [nav_underscore_row, nav_hyphen_row] = [nav_hyphen_row]
   \<and> write_csv [nav_hyphen_row, nav_underscore_row] = [nav_hyphen_row]"
proof -
  have en: "r_en nav_hyphen_row = ''Home''" "r_en nav_underscore_row = ''Home''"
    "r_id nav_hyphen_row = ''nav-logo''" "r_id nav_underscore_row = ''nav_logo''"
    by (simp_all add: nav_underscore_row_def nav_hyphen_row_def)
  show ?thesis
    by (simp add: write_csv_def en id_score_nav_logo id_score_nav_hyphen_logo)
qed

section \<open>Properties of \<open>create_updated_csv\<close>\<close>

lemma strip_Nil [simp]: "strip [] = []"
  by (simp add: strip_def)

lemma create_step_eq:
  "create_step tinfo ex page (rows, S) (i, cd) =
     (if i \<in> S then (rows, S)
      else if translatable (page, i, cd)
           then (rows @ [candidate_row tinfo ex (page, i, cd)], insert i S)
           else (rows, insert i S))"
  by (auto simp: translatable_def candidate_row_def stored_def en_of_def es_of_def Let_def
      split: option.splits)


lemma create_fold:
  "foldl (\<lambda>st it. create_step tinfo ex (fst it) st (snd it)) (rows, S) its =
     (rows @ map (candidate_row tinfo ex) (filter translatable (firsts S its)),
      S \<union> item_id ` set its)"
proof (induction its arbitrary: rows S)
  case Nil
  then show ?case by simp
next
  case (Cons it its)
  obtain page i cd where it: "it = (page, i, cd)" by (cases it) auto
  let ?f = "\<lambda>st it. create_step tinfo ex (fst it) st (snd it)"
  have unfold: "foldl ?f (rows, S) (it # its) =
      foldl ?f (create_step tinfo ex page (rows, S) (i, cd)) its"
    using it by simp
  show ?case
  proof (cases "i \<in> S")
    case True
    have "create_step tinfo ex page (rows, S) (i, cd) = (rows, S)"
      using True by (simp only: create_step_eq if_True)
    then show ?thesis unfolding unfold using Cons.IH[of rows S] it True
      by (auto simp: item_id_def)
  next
    case False
    show ?thesis
    proof (cases "translatable (page, i, cd)")
      case True
      have "create_step tinfo ex page (rows, S) (i, cd) =
          (rows @ [candidate_row tinfo ex (page, i, cd)], insert i S)"
        using True False by (simp only: create_step_eq if_True if_False)
      then show ?thesis unfolding unfold
        using Cons.IH[of "rows @ [candidate_row tinfo ex (page, i, cd)]" "insert i S"] it False True
        by (auto simp: item_id_def)
    next
      case nt: False
      have "create_step tinfo ex page (rows, S) (i, cd) = (rows, insert i S)"
        using nt False by (simp only: create_step_eq if_True if_False)
      then show ?thesis unfolding unfold
        using Cons.IH[of rows "insert i S"] it False nt
        by (auto simp: item_id_def)
    qed
  qed
qed

lemma create_pages_items:
  "foldl (create_page tinfo ex) st pids =
     foldl (\<lambda>st it. create_step tinfo ex (fst it) st (snd it)) st (items pids)"
proof (induction pids arbitrary: st)
  case Nil
  then show ?case by (simp add: items_def)
next
  case (Cons pg pids)
  have "items (pg # pids) = map (\<lambda>kv. (fst pg, kv)) (snd pg) @ items pids"
    by (simp add: items_def)
  then show ?case using Cons.IH
    by (simp add: create_page_def foldl_map)
qed

lemma create_updated_csv_eq:
  "create_updated_csv pids tinfo ex =
     map (candidate_row tinfo ex) (filter translatable (firsts {} (items pids)))"
  using create_fold[of tinfo ex "[]" "{}" "items pids"]
  by (simp add: create_updated_csv_def create_pages_items)

lemma firsts_subset: "set (firsts S its) \<subseteq> set its"
proof (induction its arbitrary: S)
  case Nil
  then show ?case by simp
next
  case (Cons it its)
  obtain page i cd where it: "it = (page, i, cd)" by (cases it) auto
  show ?case using Cons.IH[of S] Cons.IH[of "insert i S"] it by auto
qed

lemma firsts_fresh: "it \<in> set (firsts S its) \<Longrightarrow> item_id it \<notin> S"
proof (induction its arbitrary: S)
  case Nil
  then show ?case by simp
next
  case (Cons x its)
  obtain page i cd where x: "x = (page, i, cd)" by (cases x) auto
  show ?case
  proof (cases "i \<in> S")
    case True
    then show ?thesis using Cons.prems Cons.IH[of S] x by simp
  next
    case False
    then show ?thesis using Cons.prems Cons.IH[of "insert i S"] x
      by (auto simp: item_id_def)
  qed
qed

lemma firsts_distinct: "distinct (map item_id (firsts S its))"
proof (induction its arbitrary: S)
  case Nil
  then show ?case by simp
next
  case (Cons x its)
  obtain page i cd where x: "x = (page, i, cd)" by (cases x) auto
  show ?case
  proof (cases "i \<in> S")
    case True
    then show ?thesis using Cons.IH[of S] x by simp
  next
    case False
    have "i \<notin> item_id ` set (firsts (insert i S) its)"
      using firsts_fresh[of _ "insert i S" its] by auto
    then show ?thesis using False Cons.IH[of "insert i S"] x
      by (simp add: item_id_def)
  qed
qed

lemma candidate_row_id [simp]: "r_id (candidate_row tinfo ex it) = item_id it"
  by (simp add: candidate_row_def item_id_def Let_def)

lemma candidate_row_en [simp]: "r_en (candidate_row tinfo ex it) = en_of (snd (snd it))"
  by (simp add: candidate_row_def Let_def)

lemma candidate_row_status [simp]: "r_status (candidate_row tinfo ex it) = ''active''"
  by (simp add: candidate_row_def Let_def)

lemma create_ids:
  "map r_id (create_updated_csv pids tinfo ex) =
     map item_id (filter translatable (firsts {} (items pids)))"
  by (simp add: create_updated_csv_eq comp_def)

lemma create_distinct: "distinct (map r_id (create_updated_csv pids tinfo ex))"
  unfolding create_ids using firsts_distinct[of "{}" "items pids"]
  by (rule distinct_map_filter)

lemma create_all_active:
  "filter (\<lambda>r. r_status r = ''active'') (create_updated_csv pids tinfo ex) =
     create_updated_csv pids tinfo ex"
  by (simp add: create_updated_csv_eq)


lemma dropWhile_nonspace:
  "(\<exists>c \<in> set (dropWhile P xs). \<not> P c) \<longleftrightarrow> (\<exists>c \<in> set xs. \<not> P c)"
  by (induction xs) auto

lemma strip_empty_iff: "strip s = [] \<longleftrightarrow> (\<forall>c \<in> set s. is_space c)"
proof -
  have "strip s = [] \<longleftrightarrow> (\<forall>c \<in> set (dropWhile is_space s). is_space c)"
    by (simp add: strip_def dropWhile_eq_Nil_conv)
  also have "\<dots> \<longleftrightarrow> (\<forall>c \<in> set s. is_space c)"
    using dropWhile_nonspace[of is_space s] by blast
  finally show ?thesis .
qed

lemma collapse_ws_nonspace:
  "(\<exists>c \<in> set (collapse_ws s). \<not> is_space c) \<longleftrightarrow> (\<exists>c \<in> set s. \<not> is_space c)"
proof (induction s rule: collapse_ws.induct)
  case 1
  then show ?case by simp
next
  case (2 c cs)
  show ?case
  proof (cases "is_space c")
    case True
    have sp: "is_space (CHR '' '')" by (simp add: is_space_def)
    have "(\<exists>x \<in> set (collapse_ws (c # cs)). \<not> is_space x)
        \<longleftrightarrow> (\<exists>x \<in> set (collapse_ws (dropWhile is_space cs)). \<not> is_space x)"
      using True sp by simp
    also have "\<dots> \<longleftrightarrow> (\<exists>x \<in> set (dropWhile is_space cs). \<not> is_space x)"
      using "2.IH"(1)[OF True] .
    also have "\<dots> \<longleftrightarrow> (\<exists>x \<in> set cs. \<not> is_space x)"
      by (rule dropWhile_nonspace)
    also have "\<dots> \<longleftrightarrow> (\<exists>x \<in> set (c # cs). \<not> is_space x)"
      using True by simp
    finally show ?thesis .
  next
    case False
    then show ?thesis by auto
  qed
qed

lemma normalize_ws_empty_iff: "normalize_ws s = [] \<longleftrightarrow> strip s = []"
  unfolding normalize_ws_def strip_empty_iff using collapse_ws_nonspace[of s] by blast

lemma create_rows_translatable:
  assumes "r \<in> set (create_updated_csv pids tinfo ex)"
  shows "strip (r_en r) \<noteq> []"
  using assms by (auto simp: create_updated_csv_eq translatable_def)

lemma write_csv_create_sub:
  "set (write_csv (create_updated_csv pids tinfo ex)) \<subseteq> set (create_updated_csv pids tinfo ex)"
  by (rule write_csv_sub[OF create_distinct])

text \<open>
  Claim C3. The rows that \<open>create_updated_csv\<close> followed by \<open>write_csv\<close> persist
  carry pairwise distinct identifiers, for all scanned identifier maps and all
  prior Store contents; so do the rows \<open>main\<close> writes, which filters on the
  status in between.
\<close>

theorem store_ids_distinct:
  "distinct (map r_id (write_csv (create_updated_csv pids tinfo existing_data))) \<and>
   distinct (map r_id (write_csv (filter (\<lambda>r. r_status r = ''active'')
      (create_updated_csv pids tinfo existing_data))))"
  by (simp add: create_all_active write_csv_distinct[OF create_distinct])

text \<open>
  Claim C4. Every persisted row has a source text that is not empty after
  whitespace normalization, and an identifier whose candidate (its first
  occurrence in the scan) has an empty or whitespace-only source text has no
  persisted row, whatever the prior Store holds for it.
\<close>

theorem no_empty_source:
  "(\<forall>r \<in> set (write_csv (filter (\<lambda>r. r_status r = ''active'')
        (create_updated_csv pids tinfo existing_data))).
      strip (r_en r) \<noteq> [] \<and> normalize_ws (r_en r) \<noteq> []) \<and>
   (\<forall>it \<in> set (firsts {} (items pids)).
      strip (en_of (snd (snd it))) = [] \<longrightarrow>
      item_id it \<notin> r_id ` set (write_csv (filter (\<lambda>r. r_status r = ''active'')
        (create_updated_csv pids tinfo existing_data))))"
proof (intro conjI ballI impI)
  let ?C = "create_updated_csv pids tinfo existing_data"
  let ?W = "write_csv (filter (\<lambda>r. r_status r = ''active'') ?C)"
  have W: "?W = write_csv ?C" by (simp add: create_all_active)
  have sub: "set ?W \<subseteq> set ?C" unfolding W by (rule write_csv_create_sub)
  {
    fix r assume "r \<in> set ?W"
    then have "r \<in> set ?C" using sub by blast
    then show "strip (r_en r) \<noteq> []" by (rule create_rows_translatable)
    then show "normalize_ws (r_en r) \<noteq> []" by (simp add: normalize_ws_empty_iff)
  }
  {
    fix it assume it: "it \<in> set (firsts {} (items pids))"
      and blank: "strip (en_of (snd (snd it))) = []"
    show "item_id it \<notin> r_id ` set ?W"
    proof
      assume "item_id it \<in> r_id ` set ?W"
      then have "item_id it \<in> set (map r_id ?C)" using sub by auto
      then obtain it' where it': "it' \<in> set (firsts {} (items pids))" "translatable it'"
        "item_id it' = item_id it"
        unfolding create_ids by auto
      have "inj_on item_id (set (firsts {} (items pids)))"
        using firsts_distinct[of "{}" "items pids"] by (simp add: distinct_map)
      then have "it' = it" using it it' by (auto dest: inj_onD)
      then show False using it'(2) blank by (simp add: translatable_def)
    qed
  }
qed

lemma blank_hero_eval:
  "write_csv (filter (\<lambda>r. r_status r = ''active'')
     (create_updated_csv blank_hero_pids [] hero_store)) = [title_row]"
proof -
  have sp: "is_space (CHR '' '')" "\<not> is_space (CHR ''H'')"
    by (simp_all add: is_space_def)
  have its: "items blank_hero_pids =
      [(''index'', ''hero'', \<lparr>d_en = Some (Text ''  ''), d_es = Some (Text ''Hola'')\<rparr>),
       (''index'', ''title'', \<lparr>d_en = Some (Text ''Hi''), d_es = None\<rparr>)]"
    by (simp add: items_def blank_hero_pids_def)
  have tr: "filter translatable (firsts {} (items blank_hero_pids)) =
      [(''index'', ''title'', \<lparr>d_en = Some (Text ''Hi''), d_es = None\<rparr>)]"
    unfolding its by (simp add: translatable_def en_of_def strip_def sp)
  have c: "create_updated_csv blank_hero_pids [] hero_store = [title_row]"
    unfolding create_updated_csv_eq tr
    by (simp add: candidate_row_def stored_def hero_store_def title_row_def en_of_def es_of_def
        get_or_def get_page_address_def Let_def)
  show ?thesis unfolding c
    by (simp add: write_csv_def title_row_def)
qed

theorem no_empty_source_witness:
  "strip (r_en title_row) \<noteq> [] \<and> normalize_ws (r_en title_row) \<noteq> [] \<and>
   ''hero'' \<notin> r_id ` set (write_csv (filter (\<lambda>r. r_status r = ''active'')
     (create_updated_csv blank_hero_pids [] hero_store))) \<and>
   hero_store ''hero'' \<noteq> None \<and>
   write_csv (filter (\<lambda>r. r_status r = ''active'')
     (create_updated_csv blank_hero_pids [] hero_store)) = [title_row]"
proof -
  let ?hero = "(''index'', ''hero'', \<lparr>d_en = Some (Text ''  ''), d_es = Some (Text ''Hola'')\<rparr>)"
  have sp: "is_space (CHR '' '')"
    by (simp add: is_space_def)
  have first: "?hero \<in> set (firsts {} (items blank_hero_pids))"
    by (simp add: items_def blank_hero_pids_def)
  have blank: "strip (en_of (snd (snd ?hero))) = []"
    by (simp add: en_of_def strip_def sp)
  have t: "title_row \<in> set (write_csv (filter (\<lambda>r. r_status r = ''active'')
     (create_updated_csv blank_hero_pids [] hero_store)))"
    by (simp add: blank_hero_eval)
  note inst = no_empty_source[of blank_hero_pids "[]" hero_store]
  have a: "strip (r_en title_row) \<noteq> [] \<and> normalize_ws (r_en title_row) \<noteq> []"
    using inst t by blast
  have b: "item_id ?hero \<notin> r_id ` set (write_csv (filter (\<lambda>r. r_status r = ''active'')
     (create_updated_csv blank_hero_pids [] hero_store)))"
    using inst first blank by blast
  have c: "hero_store ''hero'' \<noteq> None"
    by (simp add: hero_store_def)
  show ?thesis using a b c blank_hero_eval by (simp add: item_id_def)
qed

text \<open>
  Claim C6. The rows \<open>create_updated_csv\<close> builds are the candidate rows of the
  identifiers' first occurrences with a source text; the target text of a
  candidate is the \<open>es\<close> field of the identifier's existing Store row when that
  field is present and not empty, and only otherwise the text extracted from
  the generated Spanish page.
\<close>

theorem target_text_priority:
  "create_updated_csv pids tinfo existing_data =
     map (candidate_row tinfo existing_data) (filter translatable (firsts {} (items pids))) \<and>
   r_es (candidate_row tinfo existing_data (page, element_id, cd)) =
     (case existing_data element_id of
        None \<Rightarrow> es_of cd
      | Some ex \<Rightarrow>
          (case ex ''es'' of
             None \<Rightarrow> es_of cd
           | Some v \<Rightarrow> if v \<noteq> [] then v else es_of cd))"
  by (simp add: create_updated_csv_eq candidate_row_def stored_def get_or_def Let_def
      split: option.splits)

section \<open>Properties of the pipeline\<close>

lemma update_mem:
  "(a, b) \<in> set (AList.update k v al) \<Longrightarrow> (a, b) = (k, v) \<or> (a, b) \<in> set al"
  by (induction al) (auto split: if_splits)

lemma map_of_mem: "map_of al k = Some v \<Longrightarrow> (k, v) \<in> set al"
  by (rule map_of_SomeD)

lemma scan_en_fold:
  assumes "foldl (scan_en_step tg) (ids0, t0) els = (ids, t)"
    and "(k, cd) \<in> set ids" and "d_en cd \<noteq> None"
  shows "k \<in> fst ` set els \<or> (\<exists>cd0. (k, cd0) \<in> set ids0 \<and> d_en cd0 \<noteq> None)"
  using assms
proof (induction els arbitrary: ids0 t0)
  case Nil
  then show ?case by auto
next
  case (Cons e els)
  obtain i c where e: "e = (i, c)" by (cases e) auto
  let ?ids1 = "AList.update i
        ((get_or \<lparr>d_en = None, d_es = None\<rparr> (map_of ids0 i))\<lparr>d_en := Some c\<rparr>) ids0"
  let ?t1 = "AList.update i (get_or ''unknown'' (map_of tg i)) t0"
  have "foldl (scan_en_step tg) (?ids1, ?t1) els = (ids, t)"
    using Cons.prems(1) e by simp
  from Cons.IH[OF this Cons.prems(2,3)]
  consider "k \<in> fst ` set els" | cd0 where "(k, cd0) \<in> set ?ids1" "d_en cd0 \<noteq> None"
    by blast
  then show ?case
  proof cases
    case 1
    then show ?thesis by auto
  next
    case 2
    from update_mem[OF 2(1)] show ?thesis
    proof
      assume "(k, cd0) = (i, (get_or \<lparr>d_en = None, d_es = None\<rparr> (map_of ids0 i))\<lparr>d_en := Some c\<rparr>)"
      then show ?thesis using e by auto
    next
      assume "(k, cd0) \<in> set ids0"
      then show ?thesis using 2(2) by blast
    qed
  qed
qed

lemma scan_es_fold:
  assumes "foldl (scan_es_step tg) (ids0, t0) els = (ids, t)"
    and "(k, cd) \<in> set ids" and "d_en cd \<noteq> None"
  shows "\<exists>cd0. (k, cd0) \<in> set ids0 \<and> d_en cd0 \<noteq> None"
  using assms
proof (induction els arbitrary: ids0 t0)
  case Nil
  then show ?case by auto
next
  case (Cons e els)
  obtain i c where e: "e = (i, c)" by (cases e) auto
  let ?new = "(get_or \<lparr>d_en = None, d_es = None\<rparr> (map_of ids0 i))\<lparr>d_es := Some c\<rparr>"
  let ?ids1 = "AList.update i ?new ids0"
  obtain t1 where "foldl (scan_es_step tg) (?ids1, t1) els = (ids, t)"
    using Cons.prems(1) e by (simp split: if_splits)
  from Cons.IH[OF this Cons.prems(2,3)]
  obtain cd0 where cd0: "(k, cd0) \<in> set ?ids1" "d_en cd0 \<noteq> None"
    by blast
  from update_mem[OF cd0(1)] show ?case
  proof
    assume eq: "(k, cd0) = (i, ?new)"
    then have "d_en (get_or \<lparr>d_en = None, d_es = None\<rparr> (map_of ids0 i)) \<noteq> None"
      using cd0(2) by auto
    then obtain old where old: "map_of ids0 i = Some old" "d_en old \<noteq> None"
      by (cases "map_of ids0 i") (auto simp: get_or_def)
    then have "(i, old) \<in> set ids0" by (auto dest: map_of_SomeD)
    then show ?thesis using old(2) eq by auto
  next
    assume "(k, cd0) \<in> set ids0"
    then show ?thesis using cd0(2) by blast
  qed
qed


lemma scan_page_en:
  assumes "scan_page fs page = Inr (ids, ti)" and "(k, cd) \<in> set ids" and "d_en cd \<noteq> None"
  shows "\<exists>doc els. fs (page @ ''.html'') = Some doc \<and> extract_ids_from_html doc = Inr els
           \<and> k \<in> fst ` set els"
proof -
  obtain ids1 t1 where en: "scan_file scan_en_step fs (page @ ''.html'') ([], []) = Inr (ids1, t1)"
    and es: "scan_file scan_es_step fs (''es/'' @ page @ ''.html'') (ids1, t1) = Inr (ids, ti)"
    using assms(1) by (auto simp: scan_page_def split: sum.splits)
  have "\<exists>cd1. (k, cd1) \<in> set ids1 \<and> d_en cd1 \<noteq> None"
  proof (cases "fs (''es/'' @ page @ ''.html'')")
    case None
    then show ?thesis using es assms(2,3) by (auto simp: scan_file_def)
  next
    case (Some doc)
    show ?thesis
    proof (cases "feed new_extractor doc")
      case (Inl err)
      then show ?thesis using es Some by (simp add: scan_file_def)
    next
      case (Inr ex)
      then have "foldl (scan_es_step (tags ex)) (ids1, t1) (elements ex) = (ids, ti)"
        using es Some by (simp add: scan_file_def)
      from scan_es_fold[OF this assms(2,3)] show ?thesis .
    qed
  qed
  then obtain cd1 where cd1: "(k, cd1) \<in> set ids1" "d_en cd1 \<noteq> None" by blast
  show ?thesis
  proof (cases "fs (page @ ''.html'')")
    case None
    then show ?thesis using en cd1 by (auto simp: scan_file_def)
  next
    case (Some doc)
    show ?thesis
    proof (cases "feed new_extractor doc")
      case (Inl err)
      then show ?thesis using en Some by (simp add: scan_file_def)
    next
      case (Inr ex)
      then have f: "foldl (scan_en_step (tags ex)) ([], []) (elements ex) = (ids1, t1)"
        using en Some by (simp add: scan_file_def)
      from scan_en_fold[OF f cd1] have "k \<in> fst ` set (elements ex)" by auto
      moreover have "extract_ids_from_html doc = Inr (elements ex)"
        using Inr by (simp add: extract_ids_from_html_def)
      ultimately show ?thesis using Some by blast
    qed
  qed
qed

lemma scan_pages_mem:
  assumes "scan_pages fs ps (pids0, t0) = Inr (pids, t)" and "(page, ids) \<in> set pids"
  shows "(page, ids) \<in> set pids0 \<or> (page \<in> set ps \<and> (\<exists>ti. scan_page fs page = Inr (ids, ti)))"
  using assms
proof (induction ps arbitrary: pids0 t0)
  case Nil
  then show ?case by simp
next
  case (Cons p ps)
  obtain ids1 ti1 where sp: "scan_page fs p = Inr (ids1, ti1)"
    and rest: "scan_pages fs ps (AList.update p ids1 pids0, AList.update p ti1 t0) = Inr (pids, t)"
    using Cons.prems(1) by (auto split: sum.splits)
  from Cons.IH[OF rest Cons.prems(2)] show ?case
  proof
    assume "(page, ids) \<in> set (AList.update p ids1 pids0)"
    from update_mem[OF this] show ?thesis using sp by auto
  next
    assume "page \<in> set ps \<and> (\<exists>ti. scan_page fs page = Inr (ids, ti))"
    then show ?thesis by auto
  qed
qed

lemma items_mem:
  "(page, k, cd) \<in> set (items pids) \<longleftrightarrow> (\<exists>ids. (page, ids) \<in> set pids \<and> (k, cd) \<in> set ids)"
  by (force simp: items_def)

lemma scanned_item_source:
  assumes "scan_html_files fs = Inr (pids, tinfo)" and "it \<in> set (items pids)"
    and "translatable it"
  shows "\<exists>page \<in> set pages. \<exists>doc els. fs (page @ ''.html'') = Some doc
           \<and> extract_ids_from_html doc = Inr els \<and> item_id it \<in> fst ` set els"
proof -
  obtain page k cd where it: "it = (page, k, cd)" by (cases it) auto
  then obtain ids where ids: "(page, ids) \<in> set pids" "(k, cd) \<in> set ids"
    using assms(2) by (auto simp: items_mem)
  have "en_of cd \<noteq> []" using assms(3) it by (auto simp: translatable_def)
  then have en: "d_en cd \<noteq> None" by (cases "d_en cd") (auto simp: en_of_def)
  from scan_pages_mem[OF assms(1)[unfolded scan_html_files_def] ids(1)]
  obtain ti where pg: "page \<in> set pages" "scan_page fs page = Inr (ids, ti)" by auto
  from scan_page_en[OF pg(2) ids(2) en] show ?thesis using pg(1) it by (auto simp: item_id_def)
qed

lemma sync_main_rows:
  assumes "sync_main fs csv_file = Inr rows"
  obtains pids tinfo where "scan_html_files fs = Inr (pids, tinfo)"
    and "rows = write_csv (create_updated_csv pids tinfo (load_existing_csv csv_file))"
  using assms by (auto simp: sync_main_def Let_def create_all_active split: sum.splits)

text \<open>
  Claim C5. An identifier that no default-language page carries any more has
  no row in the Store the run writes, whatever the prior Store holds for it;
  every written row has the status \<open>active\<close>, so no row marks a deletion.
\<close>

theorem removed_id_absent:
  assumes "sync_main fs csv_file = Inr rows"
    and "\<forall>page \<in> set pages. \<forall>doc els. fs (page @ ''.html'') = Some doc
           \<and> extract_ids_from_html doc = Inr els \<longrightarrow> element_id \<notin> fst ` set els"
  shows "element_id \<notin> r_id ` set rows \<and> (\<forall>r \<in> set rows. r_status r = ''active'')"
proof -
  from assms(1) obtain pids tinfo where scan: "scan_html_files fs = Inr (pids, tinfo)"
    and rows: "rows = write_csv (create_updated_csv pids tinfo (load_existing_csv csv_file))"
    by (rule sync_main_rows)
  let ?C = "create_updated_csv pids tinfo (load_existing_csv csv_file)"
  have sub: "set rows \<subseteq> set ?C" unfolding rows by (rule write_csv_create_sub)
  have "element_id \<notin> r_id ` set rows"
  proof
    assume "element_id \<in> r_id ` set rows"
    then have "element_id \<in> set (map r_id ?C)" using sub by auto
    then obtain it where it: "it \<in> set (firsts {} (items pids))" "translatable it"
      "item_id it = element_id"
      unfolding create_ids by auto
    then have "it \<in> set (items pids)" using firsts_subset by blast
    from scanned_item_source[OF scan this it(2)] show False using assms(2) it(3) by blast
  qed
  moreover have "\<forall>r \<in> set rows. r_status r = ''active''"
    using sub by (auto simp: create_updated_csv_eq)
  ultimately show ?thesis by blast
qed

lemma twin_step:
  assumes tw: "twin_state sz oz sx sy" and z: "same_key z"
  shows "\<exists>sz' oz'. twin_state sz' oz' (dedup_step sx (fst z)) (dedup_step sy (snd z))
           \<and> set oz' \<subseteq> insert z (set oz)"
proof -
  from tw have sx: "sx = (map_option fst \<circ> sz, map fst oz)"
    and sy: "sy = (map_option snd \<circ> sz, map snd oz)"
    and oz: "\<And>w. w \<in> set oz \<Longrightarrow> same_key w"
    and szk: "\<And>t w. sz t = Some w \<Longrightarrow> same_key w"
    by (auto simp: twin_state_def)
  have en: "r_en (snd z) = r_en (fst z)" and idz: "r_id (snd z) = r_id (fst z)"
    using z by (auto simp: same_key_def)
  show ?thesis
  proof (cases "sz (r_en (fst z))")
    case None
    have "twin_state (sz(r_en (fst z) \<mapsto> z)) (oz @ [z])
        (dedup_step sx (fst z)) (dedup_step sy (snd z))"
      using None sx sy en oz szk z
      by (auto simp: twin_state_def fun_eq_iff)
    then show ?thesis by (intro exI[of _ "sz(r_en (fst z) \<mapsto> z)"] exI[of _ "oz @ [z]"]) auto
  next
    case (Some e)
    have ek: "same_key e" using szk[OF Some] .
    then have eid: "r_id (snd e) = r_id (fst e)" by (simp add: same_key_def)
    show ?thesis
    proof (cases "id_score (r_id (fst z)) > id_score (r_id (fst e))")
      case False
      have "twin_state sz oz (dedup_step sx (fst z)) (dedup_step sy (snd z))"
        using Some False sx sy en idz eid tw by (auto simp: twin_state_def)
      then show ?thesis by (intro exI[of _ sz] exI[of _ oz]) auto
    next
      case True
      let ?oz = "filter (\<lambda>w. r_id (fst w) \<noteq> r_id (fst e)) oz @ [z]"
      have f1: "filter (\<lambda>r. r_id r \<noteq> r_id (fst e)) (map fst oz)
          = map fst (filter (\<lambda>w. r_id (fst w) \<noteq> r_id (fst e)) oz)"
        by (simp add: filter_map comp_def)
      have f2: "filter (\<lambda>r. r_id r \<noteq> r_id (snd e)) (map snd oz)
          = map snd (filter (\<lambda>w. r_id (fst w) \<noteq> r_id (fst e)) oz)"
      proof -
        have "filter (\<lambda>r. r_id r \<noteq> r_id (snd e)) (map snd oz)
            = map snd (filter (\<lambda>w. r_id (snd w) \<noteq> r_id (fst e)) oz)"
          by (simp add: filter_map comp_def eid)
        also have "filter (\<lambda>w. r_id (snd w) \<noteq> r_id (fst e)) oz
            = filter (\<lambda>w. r_id (fst w) \<noteq> r_id (fst e)) oz"
          by (rule filter_cong) (auto dest: oz simp: same_key_def)
        finally show ?thesis .
      qed
      have dx: "dedup_step sx (fst z) =
          (map_option fst \<circ> (sz(r_en (fst z) \<mapsto> z)), map fst ?oz)"
        using Some True sx f1 by (auto simp: fun_eq_iff)
      have dy: "dedup_step sy (snd z) =
          (map_option snd \<circ> (sz(r_en (fst z) \<mapsto> z)), map snd ?oz)"
        using Some True sy en idz eid f2 by (auto simp: fun_eq_iff)
      have "twin_state (sz(r_en (fst z) \<mapsto> z)) ?oz
          (dedup_step sx (fst z)) (dedup_step sy (snd z))"
        unfolding twin_state_def using dx dy oz szk z by auto
      then show ?thesis
        by (intro exI[of _ "sz(r_en (fst z) \<mapsto> z)"] exI[of _ ?oz]) auto
    qed
  qed
qed

lemma twin_foldl:
  assumes "twin_state sz oz sx sy" and "\<forall>z \<in> set zs. same_key z"
  shows "\<exists>sz' oz'. twin_state sz' oz' (foldl dedup_step sx (map fst zs))
           (foldl dedup_step sy (map snd zs)) \<and> set oz' \<subseteq> set oz \<union> set zs"
  using assms
proof (induction zs arbitrary: sz oz sx sy)
  case Nil
  then show ?case by auto
next
  case (Cons z zs)
  have "same_key z" using Cons.prems(2) by simp
  from twin_step[OF Cons.prems(1) this]
  obtain sz1 oz1 where t1: "twin_state sz1 oz1 (dedup_step sx (fst z)) (dedup_step sy (snd z))"
    and s1: "set oz1 \<subseteq> insert z (set oz)" by blast
  have "\<forall>z \<in> set zs. same_key z" using Cons.prems(2) by simp
  from Cons.IH[OF t1 this]
  obtain sz2 oz2 where t2: "twin_state sz2 oz2
      (foldl dedup_step (dedup_step sx (fst z)) (map fst zs))
      (foldl dedup_step (dedup_step sy (snd z)) (map snd zs))"
    and s2: "set oz2 \<subseteq> set oz1 \<union> set zs" by blast
  show ?case
    by (intro exI[of _ sz2] exI[of _ oz2]) (use t2 s1 s2 in auto)
qed

lemma write_csv_twin:
  assumes "\<forall>z \<in> set zs. same_key z"
  shows "\<exists>oz. set oz \<subseteq> set zs \<and> write_csv (map fst zs) = map fst oz
           \<and> write_csv (map snd zs) = map snd oz"
proof -
  have "twin_state Map.empty [] (Map.empty, []) (Map.empty, [])"
    by (simp add: twin_state_def fun_eq_iff)
  from twin_foldl[OF this assms]
  obtain sz' oz' where "twin_state sz' oz' (foldl dedup_step (Map.empty, []) (map fst zs))
           (foldl dedup_step (Map.empty, []) (map snd zs))" "set oz' \<subseteq> set zs"
    by auto
  then show ?thesis
    by (intro exI[of _ oz']) (auto simp: write_csv_def twin_state_def)
qed


lemma row_dict_fields [simp]:
  "row_dict r ''id'' = Some (r_id r)" "row_dict r ''es'' = Some (r_es r)"
  "row_dict r ''page'' = Some (r_page r)"
  by (simp_all add: row_dict_def)

lemma load_fold_empty_key:
  "m [] = None \<Longrightarrow> foldl load_step m rs [] = None"
  by (induction rs arbitrary: m) (auto simp: load_step_def Let_def)

lemma load_empty_key: "load_existing_csv csv_file [] = None"
  by (cases csv_file) (simp_all add: load_existing_csv_def load_fold_empty_key)

lemma load_fold_other:
  "i \<notin> r_id ` set rs \<Longrightarrow> foldl load_step m (map row_dict rs) i = m i"
  by (induction rs arbitrary: m) (auto simp: load_step_def Let_def get_or_def)

lemma load_fold_row:
  "distinct (map r_id rs) \<Longrightarrow> r \<in> set rs \<Longrightarrow> r_id r \<noteq> [] \<Longrightarrow>
   foldl load_step m (map row_dict rs) (r_id r) = Some (row_dict r)"
proof (induction rs arbitrary: m)
  case Nil
  then show ?case by simp
next
  case (Cons x rs)
  show ?case
  proof (cases "r = x")
    case True
    have "r_id r \<notin> r_id ` set rs" using Cons.prems(1) True by auto
    then have "foldl load_step (load_step m (row_dict x)) (map row_dict rs) (r_id r)
        = load_step m (row_dict x) (r_id r)"
      by (rule load_fold_other)
    moreover have "load_step m (row_dict x) (r_id r) = Some (row_dict r)"
      using True Cons.prems(3) by (simp add: load_step_def Let_def get_or_def)
    ultimately show ?thesis by simp
  next
    case False
    then have "r \<in> set rs" using Cons.prems(2) by simp
    moreover have "distinct (map r_id rs)" using Cons.prems(1) by simp
    ultimately show ?thesis using Cons.IH Cons.prems(3) by simp
  qed
qed

lemma universal_newlines_cr_free: "cr \<notin> set s \<Longrightarrow> universal_newlines s = s"
  by (induction s rule: universal_newlines.induct) auto

lemma read_back_cr_free: "cr_free r \<Longrightarrow> read_back (row_dict r) = row_dict r"
  by (rule ext) (simp add: read_back_def row_dict_def cr_free_def universal_newlines_cr_free)

lemma written_store_cr_free:
  "\<forall>r \<in> set rs. cr_free r \<Longrightarrow> written_store rs = Some (map row_dict rs)"
  by (simp add: written_store_def read_back_cr_free)

lemma load_written_row:
  "\<forall>r \<in> set rs. cr_free r \<Longrightarrow> distinct (map r_id rs) \<Longrightarrow> r \<in> set rs \<Longrightarrow> r_id r \<noteq> [] \<Longrightarrow>
   load_existing_csv (written_store rs) (r_id r) = Some (row_dict r)"
  by (simp add: load_existing_csv_def written_store_cr_free load_fold_row)

lemma candidate_row_stored:
  "stored a (item_id it) ''es'' = stored b (item_id it) ''es'' \<Longrightarrow>
   stored a (item_id it) ''page'' = stored b (item_id it) ''page'' \<Longrightarrow>
   candidate_row tinfo a it = candidate_row tinfo b it"
  by (simp add: candidate_row_def item_id_def Let_def)

lemma candidate_row_fixpoint:
  assumes "b (item_id it) = Some (row_dict (candidate_row tinfo a it))"
  shows "candidate_row tinfo b it = candidate_row tinfo a it"
  using assms by (simp add: candidate_row_def item_id_def stored_def get_or_def Let_def)

text \<open>
  A run that writes a Store without a carriage return in any field, followed
  by a second run over the same pages that reads that Store, writes the same
  rows again.
\<close>

lemma sync_main_idempotent_cr_free:
  assumes "sync_main fs csv_file = Inr rows" and free: "\<forall>r \<in> set rows. cr_free r"
  shows "sync_main fs (written_store rows) = Inr rows"
proof -
  from assms(1) obtain pids tinfo where scan: "scan_html_files fs = Inr (pids, tinfo)"
    and rows: "rows = write_csv (create_updated_csv pids tinfo (load_existing_csv csv_file))"
    by (rule sync_main_rows)
  let ?F = "filter translatable (firsts {} (items pids))"
  let ?a = "load_existing_csv csv_file"
  let ?b = "load_existing_csv (written_store rows)"
  let ?zs = "map (\<lambda>it. (candidate_row tinfo ?a it, candidate_row tinfo ?b it)) ?F"
  have c1: "create_updated_csv pids tinfo ?a = map fst ?zs"
    by (simp add: create_updated_csv_eq comp_def)
  have c2: "create_updated_csv pids tinfo ?b = map snd ?zs"
    by (simp add: create_updated_csv_eq comp_def)
  have "\<forall>z \<in> set ?zs. same_key z" by (auto simp: same_key_def)
  from write_csv_twin[OF this]
  obtain oz where oz: "set oz \<subseteq> set ?zs" "write_csv (map fst ?zs) = map fst oz"
    "write_csv (map snd ?zs) = map snd oz" by blast
  have r1: "rows = map fst oz" using rows c1 oz(2) by simp
  have dist: "distinct (map r_id rows)"
    unfolding rows by (rule write_csv_distinct[OF create_distinct])
  have "snd z = fst z" if "z \<in> set oz" for z
  proof -
    from that oz(1) obtain it where it: "z = (candidate_row tinfo ?a it, candidate_row tinfo ?b it)"
      by auto
    have mem: "candidate_row tinfo ?a it \<in> set rows" using that it r1 by force
    show ?thesis
    proof (cases "item_id it = []")
      case True
      have "candidate_row tinfo ?b it = candidate_row tinfo ?a it"
        by (rule candidate_row_stored) (simp_all add: stored_def True load_empty_key)
      then show ?thesis using it by simp
    next
      case False
      have "?b (item_id it) = Some (row_dict (candidate_row tinfo ?a it))"
        using load_written_row[OF free dist mem] False by simp
      then have "candidate_row tinfo ?b it = candidate_row tinfo ?a it"
        by (rule candidate_row_fixpoint)
      then show ?thesis using it by simp
    qed
  qed
  then have "map snd oz = map fst oz" by simp
  then have "write_csv (create_updated_csv pids tinfo ?b) = rows"
    using c2 oz(3) r1 by simp
  then show ?thesis using scan
    by (simp add: sync_main_def Let_def create_all_active)
qed

text \<open>
  Claim C1 (fails on the code). On the site above the first run writes the
  carriage return of \<open>outer\<close> into the \<open>es\<close> field. The second run reads the
  field with a line feed in its place, takes it as the stored translation and
  writes it: the rows of the second Store differ from the rows of the first,
  and so do the two files.
\<close>

theorem second_run_rewrites_store:
  "sync_main cr_fs None = Inr cr_rows_first \<and>
   sync_main cr_fs (written_store cr_rows_first) = Inr cr_rows_second \<and>
   cr_rows_second \<noteq> cr_rows_first"
  by code_simp

lemma demo_run: "sync_main demo_fs demo_store = Inr demo_rows"
  by code_simp

lemma demo_old_id: "load_existing_csv demo_store ''old-id'' \<noteq> None"
  by code_simp

lemma demo_index_ids:
  "extract_ids_from_html demo_index =
     Inr [(''nav_logo'', Text ''Home''), (''nav-logo'', Text ''Home''), (''title'', Text ''Hi there'')]"
  by code_simp

lemma demo_fs_pages:
  "demo_fs ''index.html'' = Some demo_index" "demo_fs ''about.html'' = None"
  "demo_fs ''contact.html'' = None" "demo_fs ''portfolio.html'' = None"
  "demo_fs ''project.html'' = None"
  by (simp_all add: demo_fs_def)

lemma demo_rows_cr_free: "\<forall>r \<in> set demo_rows. cr_free r"
  by (simp add: demo_rows_def cr_free_def cr_def)

lemma demo_second_run: "sync_main demo_fs (written_store demo_rows) = Inr demo_rows"
  using sync_main_idempotent_cr_free[OF demo_run demo_rows_cr_free] .

theorem removed_id_absent_witness:
  "sync_main demo_fs demo_store = Inr demo_rows \<and>
   load_existing_csv demo_store ''old-id'' \<noteq> None \<and>
   ''old-id'' \<notin> r_id ` set demo_rows \<and>
   r_status (demo_rows ! 0) = ''active'' \<and> r_status (demo_rows ! 1) = ''active''"
proof -
  have absent: "\<forall>page \<in> set pages. \<forall>doc els. demo_fs (page @ ''.html'') = Some doc
           \<and> extract_ids_from_html doc = Inr els \<longrightarrow> ''old-id'' \<notin> fst ` set els"
    by (auto simp: pages_def demo_fs_pages demo_index_ids)
  have "''old-id'' \<notin> r_id ` set demo_rows \<and> (\<forall>r \<in> set demo_rows. r_status r = ''active'')"
    using removed_id_absent[OF demo_run absent] .
  then show ?thesis using demo_run demo_old_id by (simp add: demo_rows_def)
qed

section \<open>Properties of the Extractor\<close>

text \<open>
  Claim C9 (fails on the code). In the document above the capture of \<open>outer\<close>
  is cut off by the start tag of \<open>inner\<close>; \<open>handle_endtag\<close> never runs for it, so
  \<open>extract_ids_from_html\<close> returns for \<open>outer\<close> the raw list of pieces, with its
  blanks, where the cleaned text would be \<open>x\<close>.
\<close>

theorem interrupted_capture_not_normalized:
  "extract_ids_from_html nested_doc =
     Inr [(''outer'', Parts ['' x '']), (''inner'', Text ''y z'')] \<and>
   normalize_ws (joined (Parts ['' x ''])) = ''x'' \<and>
   to_str (Parts ['' x '']) = '' x ''"
  by code_simp

section \<open>Properties of the Generator\<close>

lemma translate_content_by_id:
  "translate_content hero_template ''es'' hero_csv = Inr hero_translated"
  by code_simp

text \<open>
  Claim C7 as stated fails: a row with an empty target text and a source text
  that is not empty is not skipped; its source text is replaced by the empty
  text.
\<close>

theorem empty_target_not_skipped:
  "translate_row untranslated_csv hero_template (''hero-title'', []) = Inr hero_emptied \<and>
   translate_content hero_template ''es'' untranslated_csv = Inr hero_emptied \<and>
   hero_emptied \<noteq> hero_template"
  by code_simp

text \<open>
  Claim C7, amended. A row leaves the document unchanged whenever the Store
  has no source text for its identifier, or an empty one, or one equal to the
  row's target text; so a row that changes the document, or raises, has a
  source text that is not empty and differs from its target text.
\<close>

theorem translate_row_skip:
  assumes "csv ''en'' = Some en"
  shows "((map_of en element_id = None \<or> map_of en element_id = Some []
            \<or> map_of en element_id = Some target_text)
          \<longrightarrow> translate_row csv html (element_id, target_text) = Inr html) \<and>
         (translate_row csv html (element_id, target_text) \<noteq> Inr html
          \<longrightarrow> (\<exists>en_text. map_of en element_id = Some en_text \<and> en_text \<noteq> []
                  \<and> en_text \<noteq> target_text))"
proof -
  have skip: "translate_row csv html (element_id, target_text) = Inr html"
    if "map_of en element_id = None \<or> map_of en element_id = Some []
        \<or> map_of en element_id = Some target_text"
    using that assms by (auto simp: translate_row_def)
  show ?thesis
  proof (intro conjI impI)
    assume "map_of en element_id = None \<or> map_of en element_id = Some []
        \<or> map_of en element_id = Some target_text"
    then show "translate_row csv html (element_id, target_text) = Inr html" by (rule skip)
  next
    assume changed: "translate_row csv html (element_id, target_text) \<noteq> Inr html"
    show "\<exists>en_text. map_of en element_id = Some en_text \<and> en_text \<noteq> [] \<and> en_text \<noteq> target_text"
    proof (cases "map_of en element_id")
      case None
      then show ?thesis using skip changed by blast
    next
      case (Some en_text)
      then have "en_text \<noteq> []" "en_text \<noteq> target_text" using skip changed by blast+
      then show ?thesis using Some by blast
    qed
  qed
qed

theorem translate_row_skip_witness:
  "translate_row same_csv hero_template (''hero-title'', ''Capture the Moment'')
     = Inr hero_template \<and>
   translate_row untranslated_csv hero_template (''hero-title'', []) \<noteq> Inr hero_template \<and>
   map_of [(''hero-title'', ''Capture the Moment'')] ''hero-title'' = Some ''Capture the Moment''"
proof -
  have en: "same_csv ''en'' = Some [(''hero-title'', ''Capture the Moment'')]"
    by (simp add: same_csv_def)
  have en': "untranslated_csv ''en'' = Some [(''hero-title'', ''Capture the Moment'')]"
    by (simp add: untranslated_csv_def)
  have l: "map_of [(''hero-title'', ''Capture the Moment'')] ''hero-title''
      = Some ''Capture the Moment''"
    by simp
  have changed: "translate_row untranslated_csv hero_template (''hero-title'', []) \<noteq> Inr hero_template"
    by code_simp
  have a: "translate_row same_csv hero_template (''hero-title'', ''Capture the Moment'')
     = Inr hero_template"
    using translate_row_skip[of same_csv "[(''hero-title'', ''Capture the Moment'')]"
        "''hero-title''" "''Capture the Moment''" hero_template] en l
    by blast
  show ?thesis using a changed l by blast
qed


lemma gen_pages_written:
  "gen_pages rewrite lang t csv True d ps = (e, d') \<Longrightarrow>
   set (written d') \<subseteq> set (written d) \<union> (\<lambda>p. p @ ''.html'') ` set ps"
proof (induction ps arbitrary: d)
  case Nil
  then show ?case by simp
next
  case (Cons p ps)
  show ?case
  proof (cases "generate_page rewrite (files d) p lang t csv True")
    case (Inl err)
    then have "d' = d" using Cons.prems by simp
    then show ?thesis by auto
  next
    case (Inr r)
    show ?thesis
    proof (cases r)
      case None
      then show ?thesis using Inr Cons.prems Cons.IH[of d] by auto
    next
      case (Some html)
      then have "gen_pages rewrite lang t csv True (write_file d (p @ ''.html'') html) ps = (e, d')"
        using Inr Cons.prems by simp
      from Cons.IH[OF this] show ?thesis by (auto simp: write_file_def)
    qed
  qed
qed

text \<open>
  Claim C10 as stated fails: with the Store and \<open>en.json\<close> present and \<open>es.json\<close>
  absent the run aborts only after it has written the default-language
  document.
\<close>

theorem partial_write_before_abort:
  "fst (generate_main no_rewrite (Some []) en_only index_only)
     = Some (FileNotFoundError ''i18n/es.json'') \<and>
   written (snd (generate_main no_rewrite (Some []) en_only index_only)) = [''index.html'']"
  by code_simp

text \<open>
  Claim C10, amended. An absent Store aborts the run with \<open>FileNotFoundError\<close>
  before any document is written. An absent \<open>en.json\<close> aborts the run before any
  document is written, with \<open>FileNotFoundError\<close> whenever the Store was loaded.
  An absent \<open>es.json\<close> aborts the run too and no document of the alternate
  language is written; with the Store loaded and \<open>en.json\<close> present the run ends
  in the state the loop over the default-language pages left, documents
  written, with that loop's exception if it raised one and with
  \<open>FileNotFoundError\<close> else.
\<close>

theorem generator_abort:
  "(csv_file = None \<longrightarrow>
      generate_main rewrite csv_file json_files fs =
        (Some (FileNotFoundError ''i18n/translations.csv''), \<lparr>files = fs, written = []\<rparr>)) \<and>
   (json_files ''en'' = None \<longrightarrow>
      (\<exists>e. generate_main rewrite csv_file json_files fs =
        (Some e, \<lparr>files = fs, written = []\<rparr>)) \<and>
      (\<forall>csv. load_translations_csv csv_file = Inr csv \<longrightarrow>
         generate_main rewrite csv_file json_files fs =
           (Some (FileNotFoundError ''i18n/en.json''), \<lparr>files = fs, written = []\<rparr>))) \<and>
   (json_files ''es'' = None \<longrightarrow>
      (\<exists>e. fst (generate_main rewrite csv_file json_files fs) = Some e) \<and>
      set (written (snd (generate_main rewrite csv_file json_files fs)))
        \<subseteq> (\<lambda>p. p @ ''.html'') ` set pages \<and>
      (\<forall>csv t e d. load_translations_csv csv_file = Inr csv \<and> json_files ''en'' = Some t \<and>
         gen_pages rewrite ''en'' t csv True \<lparr>files = fs, written = []\<rparr> pages = (e, d) \<longrightarrow>
         generate_main rewrite csv_file json_files fs =
           (Some (case e of None \<Rightarrow> FileNotFoundError ''i18n/es.json'' | Some err \<Rightarrow> err), d)))"
proof (intro conjI impI allI)
  assume "csv_file = None"
  then show "generate_main rewrite csv_file json_files fs =
        (Some (FileNotFoundError ''i18n/translations.csv''), \<lparr>files = fs, written = []\<rparr>)"
    by (simp add: generate_main_def load_translations_csv_def)
next
  assume "json_files ''en'' = None"
  then show "\<exists>e. generate_main rewrite csv_file json_files fs =
        (Some e, \<lparr>files = fs, written = []\<rparr>)"
    by (cases "load_translations_csv csv_file")
       (simp_all add: generate_main_def languages_def load_translations_def)
next
  fix csv
  assume "json_files ''en'' = None" and "load_translations_csv csv_file = Inr csv"
  then show "generate_main rewrite csv_file json_files fs =
           (Some (FileNotFoundError ''i18n/en.json''), \<lparr>files = fs, written = []\<rparr>)"
    by (simp add: generate_main_def languages_def load_translations_def)
next
  assume es: "json_files ''es'' = None"
  let ?d0 = "\<lparr>files = fs, written = []\<rparr>"
  show "\<exists>e. fst (generate_main rewrite csv_file json_files fs) = Some e"
  proof (cases "load_translations_csv csv_file")
    case (Inl err)
    then show ?thesis by (simp add: generate_main_def)
  next
    case (Inr csv)
    show ?thesis
    proof (cases "json_files ''en''")
      case None
      then show ?thesis using Inr
        by (simp add: generate_main_def languages_def load_translations_def)
    next
      case (Some t)
      obtain e d' where g: "gen_pages rewrite ''en'' t csv True ?d0 pages = (e, d')"
        by (cases "gen_pages rewrite ''en'' t csv True ?d0 pages") auto
      show ?thesis using Inr Some g es
        by (cases e) (simp_all add: generate_main_def languages_def load_translations_def)
    qed
  qed
next
  assume es: "json_files ''es'' = None"
  let ?d0 = "\<lparr>files = fs, written = []\<rparr>"
  show "set (written (snd (generate_main rewrite csv_file json_files fs)))
        \<subseteq> (\<lambda>p. p @ ''.html'') ` set pages"
  proof (cases "load_translations_csv csv_file")
    case (Inl err)
    then show ?thesis by (simp add: generate_main_def)
  next
    case (Inr csv)
    show ?thesis
    proof (cases "json_files ''en''")
      case None
      then show ?thesis using Inr
        by (simp add: generate_main_def languages_def load_translations_def)
    next
      case (Some t)
      obtain e d' where g: "gen_pages rewrite ''en'' t csv True ?d0 pages = (e, d')"
        by (cases "gen_pages rewrite ''en'' t csv True ?d0 pages") auto
      have w: "set (written d') \<subseteq> (\<lambda>p. p @ ''.html'') ` set pages"
        using gen_pages_written[OF g] by simp
      show ?thesis using Inr Some g es w
        by (cases e) (simp_all add: generate_main_def languages_def load_translations_def)
    qed
  qed
next
  fix csv t e d
  assume es: "json_files ''es'' = None"
    and h: "load_translations_csv csv_file = Inr csv \<and> json_files ''en'' = Some t \<and>
         gen_pages rewrite ''en'' t csv True \<lparr>files = fs, written = []\<rparr> pages = (e, d)"
  then show "generate_main rewrite csv_file json_files fs =
           (Some (case e of None \<Rightarrow> FileNotFoundError ''i18n/es.json'' | Some err \<Rightarrow> err), d)"
    by (cases e) (simp_all add: generate_main_def languages_def load_translations_def)
qed

lemma en_loop_index_only:
  "gen_pages no_rewrite ''en'' () [''en'' \<mapsto> [], ''es'' \<mapsto> []] True
     \<lparr>files = index_only, written = []\<rparr> pages
   = (None, \<lparr>files = index_only(''index.html'' \<mapsto> ''<p>x</p>''), written = [''index.html'']\<rparr>)"
  by (simp add: pages_def generate_page_def no_rewrite_def index_only_def translate_content_def
      write_file_def Let_def)

theorem generator_abort_witness:
  "generate_main no_rewrite None en_only index_only =
     (Some (FileNotFoundError ''i18n/translations.csv''), \<lparr>files = index_only, written = []\<rparr>) \<and>
   generate_main no_rewrite (Some []) (Map.empty :: string \<rightharpoonup> unit) index_only =
     (Some (FileNotFoundError ''i18n/en.json''), \<lparr>files = index_only, written = []\<rparr>) \<and>
   generate_main no_rewrite (Some []) en_only index_only =
     (Some (FileNotFoundError ''i18n/es.json''),
      \<lparr>files = index_only(''index.html'' \<mapsto> ''<p>x</p>''), written = [''index.html'']\<rparr>) \<and>
   en_only ''es'' = None \<and> en_only ''en'' = Some ()"
proof -
  have es: "en_only ''es'' = None" and en: "en_only ''en'' = Some ()"
    by (simp_all add: en_only_def)
  have ld: "load_translations_csv (Some []) = Inr [''en'' \<mapsto> [], ''es'' \<mapsto> []]"
    by (simp add: load_translations_csv_def)
  have a: "generate_main no_rewrite None en_only index_only =
     (Some (FileNotFoundError ''i18n/translations.csv''), \<lparr>files = index_only, written = []\<rparr>)"
    using generator_abort[of None no_rewrite en_only index_only] by simp
  have b: "generate_main no_rewrite (Some []) (Map.empty :: string \<rightharpoonup> unit) index_only =
     (Some (FileNotFoundError ''i18n/en.json''), \<lparr>files = index_only, written = []\<rparr>)"
    using generator_abort[of "Some []" no_rewrite "Map.empty :: string \<rightharpoonup> unit" index_only] ld
    by simp
  have "generate_main no_rewrite (Some []) en_only index_only =
     (Some (case None of None \<Rightarrow> FileNotFoundError ''i18n/es.json'' | Some err \<Rightarrow> err),
      \<lparr>files = index_only(''index.html'' \<mapsto> ''<p>x</p>''), written = [''index.html'']\<rparr>)"
    using generator_abort[of "Some []" no_rewrite en_only index_only] es en ld en_loop_index_only
    by blast
  then have c: "generate_main no_rewrite (Some []) en_only index_only =
     (Some (FileNotFoundError ''i18n/es.json''),
      \<lparr>files = index_only(''index.html'' \<mapsto> ''<p>x</p>''), written = [''index.html'']\<rparr>)"
    by simp
  show ?thesis using a b c es en by blast
qed

end

